theory Spec2Isabelle
  imports Complex_Main "HOL-Library.Word"
begin

section \<open>JavaScript values used by walletService.ts\<close>

text \<open>
  A JavaScript string is a sequence of 16-bit code units. String literals of the source
  are written with \<open>str\<close>, which maps each ASCII character to its code unit.
\<close>

type_synonym jsstring = "16 word list"

definition str :: "string \<Rightarrow> jsstring" where
  "str s = map (\<lambda>c. of_nat (of_char c)) s"

text \<open>
  The exceptions the service can see: \<open>Error msg\<close> is \<open>new Error(msg)\<close> thrown by the
  service itself, \<open>TypeError\<close> and \<open>SyntaxError\<close> are raised by the language (a property
  read on \<open>null\<close>, \<open>JSON.parse\<close> on malformed text), and \<open>Rejected n\<close> is any exception
  or promise rejection coming out of an external package, the store or the network
  (\<open>n\<close> only tells such errors apart).
\<close>

datatype error = Error string | TypeError | SyntaxError | Rejected nat

text \<open>
  Values produced by \<open>JSON.parse\<close>. An object keeps its members in text order, duplicates
  included; a property read takes the last member of that name, as \<open>JSON.parse\<close> lets a
  later duplicate overwrite an earlier one. A number carries its exact decimal value:
  the rounding to a double is outside this model.
\<close>

datatype json =
    JNull
  | JBool bool
  | JNum rat
  | JStr jsstring
  | JArr "json list"
  | JObj "(jsstring \<times> json) list"

text \<open>The result of an arithmetic expression: a finite number or \<open>NaN\<close>.\<close>

datatype number = Fin rat | NaN

subsection \<open>JSON.stringify on strings (QuoteJSONString)\<close>

definition hex_digit :: "nat \<Rightarrow> 16 word" where
  "hex_digit n = (if n < 10 then 0x30 + of_nat n else 0x61 + of_nat (n - 10))"

definition unicode_escape :: "16 word \<Rightarrow> jsstring" where
  "unicode_escape c =
     [0x5C, 0x75,
      hex_digit (unat c div 4096), hex_digit (unat c div 256 mod 16),
      hex_digit (unat c div 16 mod 16), hex_digit (unat c mod 16)]"

definition is_lead_surrogate :: "16 word \<Rightarrow> bool" where
  "is_lead_surrogate c \<longleftrightarrow> 0xD800 \<le> c \<and> c \<le> 0xDBFF"

definition is_trail_surrogate :: "16 word \<Rightarrow> bool" where
  "is_trail_surrogate c \<longleftrightarrow> 0xDC00 \<le> c \<and> c \<le> 0xDFFF"

text \<open>
  The body of a quoted string: the two-character escapes for backspace, tab, line feed,
  form feed, carriage return, the quote and the backslash; \<open>\uXXXX\<close> for the other
  control characters and for a surrogate that is not part of a pair; every other code
  unit as it is.
\<close>

fun quote_chars :: "jsstring \<Rightarrow> jsstring" where
  "quote_chars [] = []"
| "quote_chars (c # cs) =
     (if c = 0x08 then [0x5C, 0x62] @ quote_chars cs
      else if c = 0x09 then [0x5C, 0x74] @ quote_chars cs
      else if c = 0x0A then [0x5C, 0x6E] @ quote_chars cs
      else if c = 0x0C then [0x5C, 0x66] @ quote_chars cs
      else if c = 0x0D then [0x5C, 0x72] @ quote_chars cs
      else if c = 0x22 then [0x5C, 0x22] @ quote_chars cs
      else if c = 0x5C then [0x5C, 0x5C] @ quote_chars cs
      else if c < 0x20 then unicode_escape c @ quote_chars cs
      else if is_lead_surrogate c then
        (case cs of
           [] \<Rightarrow> unicode_escape c
         | d # ds \<Rightarrow>
             if is_trail_surrogate d then c # d # quote_chars ds
             else unicode_escape c @ quote_chars cs)
      else if is_trail_surrogate c then unicode_escape c @ quote_chars cs
      else c # quote_chars cs)"

definition QuoteJSONString :: "jsstring \<Rightarrow> jsstring" where
  "QuoteJSONString s = [0x22] @ quote_chars s @ [0x22]"

subsection \<open>JSON.parse\<close>

fun skip_ws :: "jsstring \<Rightarrow> jsstring" where
  "skip_ws [] = []"
| "skip_ws (c # cs) =
     (if c = 0x20 \<or> c = 0x09 \<or> c = 0x0A \<or> c = 0x0D then skip_ws cs else c # cs)"

definition hex_val :: "16 word \<Rightarrow> nat option" where
  "hex_val c =
     (if 0x30 \<le> c \<and> c \<le> 0x39 then Some (unat c - 0x30)
      else if 0x61 \<le> c \<and> c \<le> 0x66 then Some (unat c - 0x61 + 10)
      else if 0x41 \<le> c \<and> c \<le> 0x46 then Some (unat c - 0x41 + 10)
      else None)"

definition hex4 :: "16 word \<Rightarrow> 16 word \<Rightarrow> 16 word \<Rightarrow> 16 word \<Rightarrow> 16 word option" where
  "hex4 a b c d =
     (case (hex_val a, hex_val b, hex_val c, hex_val d) of
        (Some h1, Some h2, Some h3, Some h4) \<Rightarrow>
          Some (of_nat (((h1 * 16 + h2) * 16 + h3) * 16 + h4))
      | _ \<Rightarrow> None)"

text \<open>
  The characters of a string after its opening quote, up to the closing quote; the
  accumulator holds the decoded code units in reverse.
\<close>

fun parse_chars :: "jsstring \<Rightarrow> jsstring \<Rightarrow> (jsstring \<times> jsstring) option" where
  "parse_chars acc [] = None"
| "parse_chars acc (c # cs) =
     (if c = 0x22 then Some (rev acc, cs)
      else if c = 0x5C then
        (case cs of
           [] \<Rightarrow> None
         | e # es \<Rightarrow>
             if e = 0x22 then parse_chars (0x22 # acc) es
             else if e = 0x5C then parse_chars (0x5C # acc) es
             else if e = 0x2F then parse_chars (0x2F # acc) es
             else if e = 0x62 then parse_chars (0x08 # acc) es
             else if e = 0x66 then parse_chars (0x0C # acc) es
             else if e = 0x6E then parse_chars (0x0A # acc) es
             else if e = 0x72 then parse_chars (0x0D # acc) es
             else if e = 0x74 then parse_chars (0x09 # acc) es
             else if e = 0x75 then
               (case es of
                  h1 # h2 # h3 # h4 # rest \<Rightarrow>
                    (case hex4 h1 h2 h3 h4 of
                       None \<Rightarrow> None
                     | Some u \<Rightarrow> parse_chars (u # acc) rest)
                | _ \<Rightarrow> None)
             else None)
      else if c < 0x20 then None
      else parse_chars (c # acc) cs)"

definition is_digit :: "16 word \<Rightarrow> bool" where
  "is_digit c \<longleftrightarrow> 0x30 \<le> c \<and> c \<le> 0x39"

fun digits_val :: "nat \<Rightarrow> jsstring \<Rightarrow> nat" where
  "digits_val a [] = a"
| "digits_val a (c # cs) = digits_val (a * 10 + (unat c - 0x30)) cs"

text \<open>
  A number: an optional minus, an integer part without a leading zero, an optional
  fraction and an optional exponent. \<open>number_frac\<close> and \<open>number_exp\<close> read the optional
  parts: whether the part is well formed, its digits, and the text after it.
\<close>

definition number_frac :: "jsstring \<Rightarrow> bool \<times> jsstring \<times> jsstring" where
  "number_frac s2 =
     (case s2 of
        [] \<Rightarrow> (True, [], s2)
      | c # cs \<Rightarrow>
          if c = 0x2E then
            (takeWhile is_digit cs \<noteq> [], takeWhile is_digit cs, dropWhile is_digit cs)
          else (True, [], s2))"

definition number_exp :: "jsstring \<Rightarrow> bool \<times> bool \<times> jsstring \<times> jsstring" where
  "number_exp s3 =
     (case s3 of
        [] \<Rightarrow> (True, False, [], s3)
      | c # cs \<Rightarrow>
          if c = 0x65 \<or> c = 0x45 then
            (let (sg, t) =
                   (case cs of
                      [] \<Rightarrow> (False, cs)
                    | d # ds \<Rightarrow>
                        if d = 0x2D then (True, ds)
                        else if d = 0x2B then (False, ds)
                        else (False, cs))
             in (takeWhile is_digit t \<noteq> [], sg, takeWhile is_digit t, dropWhile is_digit t))
          else (True, False, [], s3))"

definition parse_number :: "jsstring \<Rightarrow> (json \<times> jsstring) option" where
  "parse_number s =
     (let (neg, s1) = (case s of [] \<Rightarrow> (False, s) | c # cs \<Rightarrow> if c = 0x2D then (True, cs) else (False, s));
          ip = takeWhile is_digit s1; s2 = dropWhile is_digit s1
      in if ip = [] \<or> (hd ip = 0x30 \<and> length ip > 1) then None
         else
           (case number_frac s2 of
              (fok, fp, s3) \<Rightarrow>
                if \<not> fok then None
                else
                  (case number_exp s3 of
                     (eok, eneg, ep, s4) \<Rightarrow>
                       if \<not> eok then None
                       else
                         let m = of_nat (digits_val 0 ip) + of_nat (digits_val 0 fp) / 10 ^ length fp;
                             v = (if eneg then m / 10 ^ digits_val 0 ep else m * 10 ^ digits_val 0 ep)
                         in Some (JNum (if neg then - v else v), s4))))"

definition expect :: "jsstring \<Rightarrow> json \<Rightarrow> jsstring \<Rightarrow> (json \<times> jsstring) option" where
  "expect lit v s =
     (if take (length lit) s = lit then Some (v, drop (length lit) s) else None)"

text \<open>
  The recursive descent over values, array elements and object members. The first
  argument bounds the depth of the recursion; \<open>JSON_parse\<close> starts it at twice the
  length of the text and two more, which is enough for every text
  (\<open>JSON_parse_any_depth\<close> below).
\<close>

fun parse_value :: "nat \<Rightarrow> jsstring \<Rightarrow> (json \<times> jsstring) option"
  and parse_elements :: "nat \<Rightarrow> json list \<Rightarrow> jsstring \<Rightarrow> (json \<times> jsstring) option"
  and parse_members :: "nat \<Rightarrow> (jsstring \<times> json) list \<Rightarrow> jsstring \<Rightarrow> (json \<times> jsstring) option"
where
  "parse_value 0 s = None"
| "parse_value (Suc n) s =
     (case skip_ws s of
        [] \<Rightarrow> None
      | c # cs \<Rightarrow>
          if c = 0x7B then
            (case skip_ws cs of
               [] \<Rightarrow> None
             | d # ds \<Rightarrow> if d = 0x7D then Some (JObj [], ds) else parse_members n [] (d # ds))
          else if c = 0x5B then
            (case skip_ws cs of
               [] \<Rightarrow> None
             | d # ds \<Rightarrow> if d = 0x5D then Some (JArr [], ds) else parse_elements n [] (d # ds))
          else if c = 0x22 then
            (case parse_chars [] cs of None \<Rightarrow> None | Some (t, r) \<Rightarrow> Some (JStr t, r))
          else if c = 0x74 then expect (str ''true'') (JBool True) (c # cs)
          else if c = 0x66 then expect (str ''false'') (JBool False) (c # cs)
          else if c = 0x6E then expect (str ''null'') JNull (c # cs)
          else parse_number (c # cs))"
| "parse_elements 0 acc s = None"
| "parse_elements (Suc n) acc s =
     (case parse_value n s of
        None \<Rightarrow> None
      | Some (v, r) \<Rightarrow>
          (case skip_ws r of
             [] \<Rightarrow> None
           | c # cs \<Rightarrow>
               if c = 0x2C then parse_elements n (v # acc) cs
               else if c = 0x5D then Some (JArr (rev (v # acc)), cs)
               else None))"
| "parse_members 0 acc s = None"
| "parse_members (Suc n) acc s =
     (case skip_ws s of
        [] \<Rightarrow> None
      | c # cs \<Rightarrow>
          if c = 0x22 then
            (case parse_chars [] cs of
               None \<Rightarrow> None
             | Some (k, r) \<Rightarrow>
                 (case skip_ws r of
                    [] \<Rightarrow> None
                  | d # ds \<Rightarrow>
                      if d = 0x3A then
                        (case parse_value n ds of
                           None \<Rightarrow> None
                         | Some (v, r2) \<Rightarrow>
                             (case skip_ws r2 of
                                [] \<Rightarrow> None
                              | e # es \<Rightarrow>
                                  if e = 0x2C then parse_members n ((k, v) # acc) es
                                  else if e = 0x7D then Some (JObj (rev ((k, v) # acc)), es)
                                  else None))
                      else None))
          else None)"

text \<open>\<open>JSON.parse\<close>: \<open>None\<close> is the \<open>SyntaxError\<close> it throws.\<close>

definition JSON_parse :: "jsstring \<Rightarrow> json option" where
  "JSON_parse s =
     (case parse_value (2 * length s + 2) s of
        None \<Rightarrow> None
      | Some (v, r) \<Rightarrow> if skip_ws r = [] then Some v else None)"

section \<open>The persisted record\<close>

text \<open>The interface \<open>Wallet\<close>: five string fields.\<close>

record Wallet =
  mnemonic :: jsstring
  privateKey :: jsstring
  publicKey :: jsstring
  address :: jsstring
  wif :: jsstring

text \<open>The JavaScript object a \<open>Wallet\<close> is, as a JSON value.\<close>

definition Wallet_value :: "Wallet \<Rightarrow> json" where
  "Wallet_value w =
     JObj [(str ''mnemonic'', JStr (mnemonic w)),
           (str ''privateKey'', JStr (privateKey w)),
           (str ''publicKey'', JStr (publicKey w)),
           (str ''address'', JStr (address w)),
           (str ''wif'', JStr (wif w))]"

text \<open>
  \<open>JSON.stringify(wallet)\<close> for an object with these five string properties: the
  members in the order of the object literal, no white space.
\<close>

definition JSON_member :: "string \<Rightarrow> jsstring \<Rightarrow> jsstring" where
  "JSON_member k v = QuoteJSONString (str k) @ [0x3A] @ QuoteJSONString v"

definition JSON_stringify :: "Wallet \<Rightarrow> jsstring" where
  "JSON_stringify w =
     [0x7B] @ JSON_member ''mnemonic'' (mnemonic w) @
     [0x2C] @ JSON_member ''privateKey'' (privateKey w) @
     [0x2C] @ JSON_member ''publicKey'' (publicKey w) @
     [0x2C] @ JSON_member ''address'' (address w) @
     [0x2C] @ JSON_member ''wif'' (wif w) @ [0x7D]"

section \<open>AsyncStorage\<close>

text \<open>
  The key-value store of the device. \<open>items\<close> is its content. \<open>faults\<close> decides the
  outcome of the coming calls, one entry per call: \<open>Some e\<close> makes the call reject with
  \<open>e\<close> and store nothing, \<open>None\<close> (or an exhausted list) lets it go through. \<open>calls\<close>
  records every call issued, rejected ones included.
\<close>

datatype call = SetItem jsstring jsstring | GetItem jsstring | RemoveItem jsstring

record storage =
  items :: "jsstring \<rightharpoonup> jsstring"
  faults :: "error option list"
  calls :: "call list"

definition next_fault :: "storage \<Rightarrow> error option" where
  "next_fault s = (case faults s of [] \<Rightarrow> None | f # fs \<Rightarrow> f)"

definition issue :: "call \<Rightarrow> storage \<Rightarrow> storage" where
  "issue c s = s\<lparr>faults := tl (faults s), calls := calls s @ [c]\<rparr>"

definition AsyncStorage_setItem :: "jsstring \<Rightarrow> jsstring \<Rightarrow> storage \<Rightarrow> (error + unit) \<times> storage" where
  "AsyncStorage_setItem k v s =
     (case next_fault s of
        Some e \<Rightarrow> (Inl e, issue (SetItem k v) s)
      | None \<Rightarrow> (Inr (), (issue (SetItem k v) s)\<lparr>items := (items s)(k \<mapsto> v)\<rparr>))"

definition AsyncStorage_getItem :: "jsstring \<Rightarrow> storage \<Rightarrow> (error + jsstring option) \<times> storage" where
  "AsyncStorage_getItem k s =
     (case next_fault s of
        Some e \<Rightarrow> (Inl e, issue (GetItem k) s)
      | None \<Rightarrow> (Inr (items s k), issue (GetItem k) s))"

definition AsyncStorage_removeItem :: "jsstring \<Rightarrow> storage \<Rightarrow> (error + unit) \<times> storage" where
  "AsyncStorage_removeItem k s =
     (case next_fault s of
        Some e \<Rightarrow> (Inl e, issue (RemoveItem k) s)
      | None \<Rightarrow> (Inr (), (issue (RemoveItem k) s)\<lparr>items := (items s)(k := None)\<rparr>))"

definition WALLET_STORAGE_KEY :: jsstring where
  "WALLET_STORAGE_KEY = str ''@bitcoin_wallet''"

subsection \<open>saveWallet, loadWallet, deleteWallet\<close>

text \<open>The \<open>catch\<close> of \<open>saveWallet\<close> logs the error and throws it again.\<close>

definition saveWallet :: "Wallet \<Rightarrow> storage \<Rightarrow> (error + unit) \<times> storage" where
  "saveWallet wallet s =
     (case AsyncStorage_setItem WALLET_STORAGE_KEY (JSON_stringify wallet) s of
        (Inl error, s') \<Rightarrow> (Inl error, s')
      | (Inr u, s') \<Rightarrow> (Inr (), s'))"

text \<open>
  The \<open>try\<close> block of \<open>loadWallet\<close>: the stored text is parsed when it is truthy (a
  string that is not empty), and the result is \<open>null\<close> otherwise.
\<close>

definition loadWallet_try :: "storage \<Rightarrow> (error + json) \<times> storage" where
  "loadWallet_try s =
     (case AsyncStorage_getItem WALLET_STORAGE_KEY s of
        (Inl e, s') \<Rightarrow> (Inl e, s')
      | (Inr walletData, s') \<Rightarrow>
          (case walletData of
             None \<Rightarrow> (Inr JNull, s')
           | Some data \<Rightarrow>
               if data \<noteq> [] then
                 (case JSON_parse data of
                    None \<Rightarrow> (Inl SyntaxError, s')
                  | Some v \<Rightarrow> (Inr v, s'))
               else (Inr JNull, s')))"

text \<open>The \<open>catch\<close> of \<open>loadWallet\<close> logs the error and returns \<open>null\<close>.\<close>

definition loadWallet :: "storage \<Rightarrow> (error + json) \<times> storage" where
  "loadWallet s =
     (case loadWallet_try s of
        (Inl error, s') \<Rightarrow> (Inr JNull, s')
      | (Inr v, s') \<Rightarrow> (Inr v, s'))"

definition deleteWallet :: "storage \<Rightarrow> (error + unit) \<times> storage" where
  "deleteWallet s =
     (case AsyncStorage_removeItem WALLET_STORAGE_KEY s of
        (Inl error, s') \<Rightarrow> (Inl error, s')
      | (Inr u, s') \<Rightarrow> (Inr (), s'))"

section \<open>Wallet creation and import\<close>

type_synonym bytes = "8 word list"

text \<open>\<open>Buffer.toString('hex')\<close>: two lower-case hexadecimal digits per byte.\<close>

definition toString_hex :: "bytes \<Rightarrow> jsstring" where
  "toString_hex bs = concat (map (\<lambda>b. [hex_digit (unat b div 16), hex_digit (unat b mod 16)]) bs)"

datatype network_t = bitcoin | testnet

definition network :: network_t where
  "network = testnet"

text \<open>
  The packages \<open>bip39\<close>, \<open>bip32\<close> and \<open>bitcoinjs-lib\<close> are not part of the
  repository; the service is modelled over any implementation of the calls it makes.
  \<open>'rng\<close> is the state of the random source \<open>generateMnemonic\<close> draws from, \<open>'node\<close> a
  BIP32 node and \<open>'pair\<close> an \<open>ECPair\<close>. A call that can throw returns a sum.
  \<open>validateMnemonic\<close> catches every error itself and answers with a boolean. The two
  non-null assertions of the source (\<open>account.privateKey!\<close> and \<open>address!\<close>) are taken
  at their word: \<open>node_privateKey\<close> and \<open>payments_p2pkh\<close> give a value.
\<close>

record ('rng, 'node, 'pair) packages =
  bip39_generateMnemonic :: "'rng \<Rightarrow> error + jsstring"
  bip39_validateMnemonic :: "jsstring \<Rightarrow> bool"
  bip39_mnemonicToSeed :: "jsstring \<Rightarrow> error + bytes"
  bip32_fromSeed :: "bytes \<Rightarrow> network_t \<Rightarrow> error + 'node"
  node_derivePath :: "'node \<Rightarrow> jsstring \<Rightarrow> error + 'node"
  node_privateKey :: "'node \<Rightarrow> bytes"
  node_publicKey :: "'node \<Rightarrow> bytes"
  ECPair_fromPrivateKey :: "bytes \<Rightarrow> network_t \<Rightarrow> error + 'pair"
  payments_p2pkh :: "bytes \<Rightarrow> network_t \<Rightarrow> error + jsstring"
  pair_toWIF :: "'pair \<Rightarrow> error + jsstring"

definition generateWallet ::
  "('rng, 'node, 'pair) packages \<Rightarrow> 'rng \<Rightarrow> storage \<Rightarrow> (error + Wallet) \<times> storage" where
  "generateWallet P rng s =
     (case bip39_generateMnemonic P rng of
        Inl e \<Rightarrow> (Inl e, s)
      | Inr mnemonic' \<Rightarrow>
     (case bip39_mnemonicToSeed P mnemonic' of
        Inl e \<Rightarrow> (Inl e, s)
      | Inr seed \<Rightarrow>
     (case bip32_fromSeed P seed network of
        Inl e \<Rightarrow> (Inl e, s)
      | Inr root' \<Rightarrow>
     (case node_derivePath P root' (str ''m/44'' @ [0x27] @ str ''/0'' @ [0x27] @ str ''/0'' @ [0x27] @ str ''/0/0'') of
        Inl e \<Rightarrow> (Inl e, s)
      | Inr account \<Rightarrow>
     (let privateKey' = node_privateKey P account;
          publicKey' = node_publicKey P account
      in
     (case ECPair_fromPrivateKey P privateKey' network of
        Inl e \<Rightarrow> (Inl e, s)
      | Inr keyPair \<Rightarrow>
     (case payments_p2pkh P publicKey' network of
        Inl e \<Rightarrow> (Inl e, s)
      | Inr address' \<Rightarrow>
     (case pair_toWIF P keyPair of
        Inl e \<Rightarrow> (Inl e, s)
      | Inr wif' \<Rightarrow>
     (let wallet = \<lparr>mnemonic = mnemonic',
                      privateKey = toString_hex privateKey',
                      publicKey = toString_hex publicKey',
                      address = address',
                      wif = wif'\<rparr>
      in
     (case saveWallet wallet s of
        (Inl e, s') \<Rightarrow> (Inl e, s')
      | (Inr u, s') \<Rightarrow> (Inr wallet, s')))))))))))"

definition importWalletFromMnemonic ::
  "('rng, 'node, 'pair) packages \<Rightarrow> jsstring \<Rightarrow> storage \<Rightarrow> (error + Wallet) \<times> storage" where
  "importWalletFromMnemonic P mnemonic' s =
     (if \<not> bip39_validateMnemonic P mnemonic' then (Inl (Error ''Invalid mnemonic phrase''), s)
      else
     (case bip39_mnemonicToSeed P mnemonic' of
        Inl e \<Rightarrow> (Inl e, s)
      | Inr seed \<Rightarrow>
     (case bip32_fromSeed P seed network of
        Inl e \<Rightarrow> (Inl e, s)
      | Inr root' \<Rightarrow>
     (case node_derivePath P root' (str ''m/44'' @ [0x27] @ str ''/0'' @ [0x27] @ str ''/0'' @ [0x27] @ str ''/0/0'') of
        Inl e \<Rightarrow> (Inl e, s)
      | Inr account \<Rightarrow>
     (let privateKey' = node_privateKey P account;
          publicKey' = node_publicKey P account
      in
     (case ECPair_fromPrivateKey P privateKey' network of
        Inl e \<Rightarrow> (Inl e, s)
      | Inr keyPair \<Rightarrow>
     (case payments_p2pkh P publicKey' network of
        Inl e \<Rightarrow> (Inl e, s)
      | Inr address' \<Rightarrow>
     (case pair_toWIF P keyPair of
        Inl e \<Rightarrow> (Inl e, s)
      | Inr wif' \<Rightarrow>
     (let wallet = \<lparr>mnemonic = mnemonic',
                      privateKey = toString_hex privateKey',
                      publicKey = toString_hex publicKey',
                      address = address',
                      wif = wif'\<rparr>
      in
     (case saveWallet wallet s of
        (Inl e, s') \<Rightarrow> (Inl e, s')
      | (Inr u, s') \<Rightarrow> (Inr wallet, s')))))))))))"

section \<open>Remote lookups\<close>

text \<open>
  \<open>fetch\<close> is the network: for a URL it rejects (a transport error) or resolves to a
  response. \<open>ok\<close> is true for a status in the range 200-299. \<open>body\<close> is the text of the
  response, or the error met while reading it.
\<close>

record response =
  ok :: bool
  body :: "error + jsstring"

text \<open>\<open>response.json()\<close>: read the body and parse it.\<close>

definition response_json :: "response \<Rightarrow> error + json" where
  "response_json r =
     (case body r of
        Inl e \<Rightarrow> Inl e
      | Inr t \<Rightarrow> (case JSON_parse t of None \<Rightarrow> Inl SyntaxError | Some v \<Rightarrow> Inr v))"

text \<open>
  The property read \<open>data.name\<close> for a name that no prototype defines (\<open>balance\<close>,
  \<open>txs\<close>): a \<open>TypeError\<close> on \<open>null\<close>, the last member of that name on an object,
  \<open>undefined\<close> (here \<open>None\<close>) on every other value.
\<close>

definition get_prop :: "json \<Rightarrow> jsstring \<Rightarrow> error + json option" where
  "get_prop v k =
     (case v of
        JNull \<Rightarrow> Inl TypeError
      | JObj ms \<Rightarrow> Inr (map_of (rev ms) k)
      | _ \<Rightarrow> Inr None)"

text \<open>
  \<open>ToNumber\<close>, applied by the division to its left operand. The conversion of strings,
  arrays and objects (\<open>StringToNumber\<close> after \<open>ToPrimitive\<close>) is the parameter \<open>conv\<close>.
\<close>

definition ToNumber :: "(json \<Rightarrow> number) \<Rightarrow> json option \<Rightarrow> number" where
  "ToNumber conv v =
     (case v of
        None \<Rightarrow> NaN
      | Some JNull \<Rightarrow> Fin 0
      | Some (JBool b) \<Rightarrow> Fin (if b then 1 else 0)
      | Some (JNum r) \<Rightarrow> Fin r
      | Some x \<Rightarrow> conv x)"

text \<open>The quotient \<open>x / d\<close> for a constant \<open>d\<close> that is not zero, before rounding.\<close>

definition number_div :: "number \<Rightarrow> rat \<Rightarrow> number" where
  "number_div x d = (case x of Fin a \<Rightarrow> Fin (a / d) | NaN \<Rightarrow> NaN)"

definition getWalletBalance_try ::
  "(jsstring \<Rightarrow> error + response) \<Rightarrow> (json \<Rightarrow> number) \<Rightarrow> jsstring \<Rightarrow> error + number" where
  "getWalletBalance_try fetch conv address' =
     (case fetch (str ''https://api.blockcypher.com/v1/btc/test3/addrs/'' @ address' @ str ''/balance'') of
        Inl e \<Rightarrow> Inl e
      | Inr response \<Rightarrow>
          if \<not> ok response then Inl (Error ''Failed to fetch balance'')
          else
            (case response_json response of
               Inl e \<Rightarrow> Inl e
             | Inr data \<Rightarrow>
                 (case get_prop data (str ''balance'') of
                    Inl e \<Rightarrow> Inl e
                  | Inr b \<Rightarrow> Inr (number_div (ToNumber conv b) 100000000))))"

text \<open>The \<open>catch\<close> logs the error and returns \<open>0\<close>.\<close>

definition getWalletBalance ::
  "(jsstring \<Rightarrow> error + response) \<Rightarrow> (json \<Rightarrow> number) \<Rightarrow> jsstring \<Rightarrow> error + number" where
  "getWalletBalance fetch conv address' =
     (case getWalletBalance_try fetch conv address' of
        Inl error \<Rightarrow> Inr (Fin 0)
      | Inr v \<Rightarrow> Inr v)"

text \<open>
  Truthiness, for \<open>data.txs || []\<close>: \<open>null\<close>, \<open>false\<close>, \<open>0\<close> and the empty string
  are falsy, as is \<open>undefined\<close> (a property that is missing).
\<close>

definition truthy :: "json \<Rightarrow> bool" where
  "truthy v =
     (case v of
        JNull \<Rightarrow> False
      | JBool b \<Rightarrow> b
      | JNum r \<Rightarrow> r \<noteq> 0
      | JStr t \<Rightarrow> t \<noteq> []
      | _ \<Rightarrow> True)"

definition getTransactionHistory_try ::
  "(jsstring \<Rightarrow> error + response) \<Rightarrow> jsstring \<Rightarrow> error + json" where
  "getTransactionHistory_try fetch address' =
     (case fetch (str ''https://api.blockcypher.com/v1/btc/test3/addrs/'' @ address' @ str ''/full?limit=10'') of
        Inl e \<Rightarrow> Inl e
      | Inr response \<Rightarrow>
          if \<not> ok response then Inl (Error ''Failed to fetch transactions'')
          else
            (case response_json response of
               Inl e \<Rightarrow> Inl e
             | Inr data \<Rightarrow>
                 (case get_prop data (str ''txs'') of
                    Inl e \<Rightarrow> Inl e
                  | Inr None \<Rightarrow> Inr (JArr [])
                  | Inr (Some txs) \<Rightarrow> Inr (if truthy txs then txs else JArr []))))"

text \<open>The \<open>catch\<close> logs the error and returns \<open>[]\<close>.\<close>

definition getTransactionHistory ::
  "(jsstring \<Rightarrow> error + response) \<Rightarrow> jsstring \<Rightarrow> error + json" where
  "getTransactionHistory fetch address' =
     (case getTransactionHistory_try fetch address' of
        Inl error \<Rightarrow> Inr (JArr [])
      | Inr v \<Rightarrow> Inr v)"

section \<open>Notions of the specification and concrete inputs\<close>

text \<open>The word count of a phrase: the pieces between single spaces.\<close>

fun split_on :: "16 word \<Rightarrow> jsstring \<Rightarrow> jsstring list" where
  "split_on sep [] = [[]]"
| "split_on sep (c # cs) =
     (if c = sep then [] # split_on sep cs
      else (case split_on sep cs of [] \<Rightarrow> [[c]] | w # ws \<Rightarrow> (c # w) # ws))"

definition word_count :: "jsstring \<Rightarrow> nat" where
  "word_count m = length (split_on 0x20 m)"

text \<open>
  A stand-in for the packages, to run the service on concrete inputs. Its validation
  looks at the word count alone and accepts the five lengths of BIP39 (12, 15, 18, 21
  and 24 words), as \<open>bip39.validateMnemonic\<close> does for a phrase whose words and
  checksum are right; its derivation shuffles bytes. The random source is the list of
  phrases still to be generated.
\<close>

definition test_packages :: "(jsstring list, bytes, bytes) packages" where
  "test_packages =
     \<lparr>bip39_generateMnemonic = (\<lambda>rng. case rng of [] \<Rightarrow> Inl (Rejected 0) | m # ms \<Rightarrow> Inr m),
      bip39_validateMnemonic = (\<lambda>m. word_count m \<in> {12, 15, 18, 21, 24}),
      bip39_mnemonicToSeed = (\<lambda>m. Inr (map ucast (take 4 m))),
      bip32_fromSeed = (\<lambda>seed net. if seed = [] then Inl (Rejected 1) else Inr seed),
      node_derivePath = (\<lambda>node path. Inr (rev node)),
      node_privateKey = (\<lambda>node. take 2 node),
      node_publicKey = (\<lambda>node. drop 2 node),
      ECPair_fromPrivateKey = (\<lambda>key net. Inr key),
      payments_p2pkh = (\<lambda>key net. Inr (str ''m'' @ toString_hex key)),
      pair_toWIF = (\<lambda>pair. Inr (str ''c'' @ toString_hex pair))\<rparr>"

definition phrase12 :: jsstring where
  "phrase12 = str ''abandon abandon abandon abandon abandon abandon abandon abandon abandon abandon abandon about''"


definition empty_storage :: storage where
  "empty_storage = \<lparr>items = Map.empty, faults = [], calls = []\<rparr>"

text \<open>
  The derivation as the specification describes it, one pipeline shared by creation and
  import: mnemonic, seed, master node, node at the fixed path, key pair, address and
  import format, assembled into a \<open>Wallet\<close>. The first failing step ends it.
\<close>

definition and_then :: "error + 'a \<Rightarrow> ('a \<Rightarrow> error + 'b) \<Rightarrow> error + 'b" where
  "and_then m f = (case m of Inl e \<Rightarrow> Inl e | Inr x \<Rightarrow> f x)"

definition derivation_path :: jsstring where
  "derivation_path = str ''m/44'' @ [0x27] @ str ''/0'' @ [0x27] @ str ''/0'' @ [0x27] @ str ''/0/0''"

definition derive_wallet :: "('rng, 'node, 'pair) packages \<Rightarrow> jsstring \<Rightarrow> error + Wallet" where
  "derive_wallet P m =
     and_then (bip39_mnemonicToSeed P m) (\<lambda>seed.
     and_then (bip32_fromSeed P seed network) (\<lambda>master.
     and_then (node_derivePath P master derivation_path) (\<lambda>account.
     and_then (ECPair_fromPrivateKey P (node_privateKey P account) network) (\<lambda>keyPair.
     and_then (payments_p2pkh P (node_publicKey P account) network) (\<lambda>addr.
     and_then (pair_toWIF P keyPair) (\<lambda>w.
     Inr \<lparr>mnemonic = m,
          privateKey = toString_hex (node_privateKey P account),
          publicKey = toString_hex (node_publicKey P account),
          address = addr,
          wif = w\<rparr>))))))"

text \<open>Persisting a derived wallet: the wallet is the result only when the write went through.\<close>

definition persist :: "Wallet \<Rightarrow> storage \<Rightarrow> (error + Wallet) \<times> storage" where
  "persist w s =
     (case saveWallet w s of
        (Inl e, s') \<Rightarrow> (Inl e, s')
      | (Inr u, s') \<Rightarrow> (Inr w, s'))"

text \<open>
  What a creation may do to the store, given the outcome \<open>derived\<close> of the derivation. On
  success the slot holds the text of the returned wallet, written by one call. On failure
  the content is as before, and either no call was issued or the one call issued carried
  the text of the complete derived wallet.
\<close>

definition atomic_write :: "(error + Wallet) \<Rightarrow> storage \<Rightarrow> (error + Wallet) \<times> storage \<Rightarrow> bool" where
  "atomic_write derived s out =
     (case out of
        (Inr w, s') \<Rightarrow>
          derived = Inr w \<and>
          items s' = (items s)(WALLET_STORAGE_KEY \<mapsto> JSON_stringify w) \<and>
          calls s' = calls s @ [SetItem WALLET_STORAGE_KEY (JSON_stringify w)]
      | (Inl e, s') \<Rightarrow>
          items s' = items s \<and>
          (calls s' = calls s \<or>
           (case derived of
              Inl e' \<Rightarrow> False
            | Inr w \<Rightarrow> calls s' = calls s @ [SetItem WALLET_STORAGE_KEY (JSON_stringify w)])))"

text \<open>Reading a JSON value as a \<open>Wallet\<close>: its five properties, each a string.\<close>

definition string_prop :: "json \<Rightarrow> string \<Rightarrow> jsstring option" where
  "string_prop v k = (case get_prop v (str k) of Inr (Some (JStr t)) \<Rightarrow> Some t | _ \<Rightarrow> None)"

definition as_Wallet :: "json \<Rightarrow> Wallet option" where
  "as_Wallet v =
     (case (string_prop v ''mnemonic'', string_prop v ''privateKey'', string_prop v ''publicKey'',
            string_prop v ''address'', string_prop v ''wif'') of
        (Some a, Some b, Some c, Some d, Some e) \<Rightarrow>
          Some \<lparr>mnemonic = a, privateKey = b, publicKey = c, address = d, wif = e\<rparr>
      | _ \<Rightarrow> None)"

text \<open>Further concrete inputs.\<close>

definition wallet0 :: Wallet where
  "wallet0 =
     \<lparr>mnemonic = phrase12, privateKey = str ''0f'', publicKey = str ''02a1'',
      address = str ''mzK'', wif = str ''cT1''\<rparr>"

definition truncated_record :: jsstring where
  "truncated_record = str ''{'' @ [0x22] @ str ''mnemonic'' @ [0x22] @ str '':'' @ [0x22] @ str ''abandon''"

definition body_without_balance :: jsstring where
  "body_without_balance = str ''{}''"

text \<open>A transaction record with its hash, and the text of that record.\<close>

definition tx :: "string \<Rightarrow> json" where
  "tx h = JObj [(str ''hash'', JStr (str h))]"

definition tx_text :: "string \<Rightarrow> jsstring" where
  "tx_text h =
     str ''{'' @ [0x22] @ str ''hash'' @ [0x22] @ str '':'' @ [0x22] @ str h @ [0x22] @ str ''}''"

definition body_with_11_txs :: jsstring where
  "body_with_11_txs =
     str ''{'' @ [0x22] @ str ''txs'' @ [0x22] @ str '':['' @
     tx_text ''a'' @ str '','' @ tx_text ''b'' @ str '','' @ tx_text ''c'' @ str '','' @
     tx_text ''d'' @ str '','' @ tx_text ''e'' @ str '','' @ tx_text ''f'' @ str '','' @
     tx_text ''g'' @ str '','' @ tx_text ''h'' @ str '','' @ tx_text ''i'' @ str '','' @
     tx_text ''j'' @ str '','' @ tx_text ''k'' @ str '']}''"

definition eleven_txs :: "json list" where
  "eleven_txs =
     [tx ''a'', tx ''b'', tx ''c'', tx ''d'', tx ''e'', tx ''f'', tx ''g'', tx ''h'', tx ''i'',
      tx ''j'', tx ''k'']"

text \<open>A network that fails every request, and one that answers every request alike.\<close>

definition refuse :: "error \<Rightarrow> jsstring \<Rightarrow> error + response" where
  "refuse e url = Inl e"

definition serve :: "response \<Rightarrow> jsstring \<Rightarrow> error + response" where
  "serve r url = Inr r"

text \<open>What the stand-in packages derive from the two phrases.\<close>

definition wallet12 :: Wallet where
  "wallet12 =
     \<lparr>mnemonic = phrase12, privateKey = str ''6e61'', publicKey = str ''6261'',
      address = str ''m6261'', wif = str ''c6e61''\<rparr>"


text \<open>A store that holds a wallet, and a store that rejects the next call.\<close>

definition used_storage :: storage where
  "used_storage =
     \<lparr>items = [WALLET_STORAGE_KEY \<mapsto> JSON_stringify wallet0], faults = [],
      calls = [SetItem WALLET_STORAGE_KEY (JSON_stringify wallet0)]\<rparr>"

definition failing_storage :: storage where
  "failing_storage =
     \<lparr>items = [WALLET_STORAGE_KEY \<mapsto> JSON_stringify wallet0], faults = [Some (Rejected 3)],
      calls = []\<rparr>"

text \<open>The two request URLs, as the template literals of the source build them.\<close>

definition balance_url :: "jsstring \<Rightarrow> jsstring" where
  "balance_url a = str ''https://api.blockcypher.com/v1/btc/test3/addrs/'' @ a @ str ''/balance''"

definition history_url :: "jsstring \<Rightarrow> jsstring" where
  "history_url a = str ''https://api.blockcypher.com/v1/btc/test3/addrs/'' @ a @ str ''/full?limit=10''"

section \<open>The depth bound of JSON.parse\<close>

text \<open>
  Every successful parse consumes input, and a parse that succeeds at some depth bound
  succeeds with the same result at every bound from twice the length of the text on.
  So the bound \<open>JSON_parse\<close> starts with never cuts a parse short: a text is rejected
  only when no bound at all makes it parse.
\<close>

lemma length_skip_ws: "length (skip_ws s) \<le> length s"
  by (induction s) auto

lemma skip_ws_Cons_length: "skip_ws s = c # cs \<Longrightarrow> length cs < length s"
  using length_skip_ws [of s] by simp

lemma expect_length:
  assumes "lit \<noteq> []" and "expect lit v s = Some (v', r)"
  shows "length r < length s"
proof -
  from assms(2) have t: "take (length lit) s = lit" and r: "r = drop (length lit) s"
    by (auto simp: expect_def split: if_splits)
  from t have "length lit \<le> length s"
    by (metis length_take min.cobounded1)
  moreover from assms(1) have "0 < length lit" by simp
  moreover from r have "length r = length s - length lit" by simp
  ultimately show ?thesis by arith
qed

lemma parse_chars_length: "parse_chars acc s = Some (t, r) \<Longrightarrow> length r < length s"
proof (induction "length s" arbitrary: s acc rule: less_induct)
  case less
  from less.prems obtain c cs where s: "s = c # cs"
    by (cases s) auto
  have IH: "length s' < Suc (length cs) \<longrightarrow> length r < length s'"
    if "parse_chars acc' s' = Some (t, r)" for acc' s'
    using less.hyps [of s' acc'] that s by simp
  from less.prems show ?case
    unfolding s
    by (auto split: if_splits list.splits option.splits dest!: IH)
qed


lemma dropWhile_shorter: "takeWhile P xs \<noteq> [] \<Longrightarrow> length (dropWhile P xs) < length xs"
  by (cases xs) (auto simp: le_imp_less_Suc length_dropWhile_le split: if_splits)

lemma number_frac_length: "number_frac s2 = (fok, fp, s3) \<Longrightarrow> length s3 \<le> length s2"
  by (auto simp: number_frac_def le_SucI length_dropWhile_le split: list.splits if_splits)

lemma number_exp_length: "number_exp s3 = (eok, eneg, ep, s4) \<Longrightarrow> length s4 \<le> length s3"
proof -
  have a: "length (dropWhile is_digit t) \<le> length t" for t :: jsstring
    by (rule length_dropWhile_le)
  assume "number_exp s3 = (eok, eneg, ep, s4)"
  then show ?thesis
    using a
    by (auto simp: number_exp_def le_SucI Let_def split: list.splits if_splits
          intro: order_trans [OF a] le_SucI)
qed


lemma parse_number_length:
  assumes "parse_number s = Some (v, r)"
  shows "length r < length s"
proof -
  obtain neg s1 where n: "(case s of [] \<Rightarrow> (False, s) | c # cs \<Rightarrow> if c = 0x2D then (True, cs) else (False, s)) = (neg, s1)"
    by (cases "(case s of [] \<Rightarrow> (False, s) | c # cs \<Rightarrow> if c = 0x2D then (True, cs) else (False, s))") auto
  then have l1: "length s1 \<le> length s"
    by (auto split: list.splits if_splits)
  obtain fok fp s3 where f: "number_frac (dropWhile is_digit s1) = (fok, fp, s3)"
    by (cases "number_frac (dropWhile is_digit s1)") auto
  obtain eok eneg ep s4 where e: "number_exp s3 = (eok, eneg, ep, s4)"
    by (cases "number_exp s3") auto
  from assms have ip: "takeWhile is_digit s1 \<noteq> []" and r: "r = s4"
    by (auto simp: parse_number_def n f e Let_def split: if_splits)
  from ip have "length (dropWhile is_digit s1) < length s1"
    by (rule dropWhile_shorter)
  with number_frac_length [OF f] number_exp_length [OF e] l1 r show ?thesis
    by simp
qed


lemma str_nonempty: "str ''true'' \<noteq> []" "str ''false'' \<noteq> []" "str ''null'' \<noteq> []"
  by (simp_all add: str_def)

lemma parse_value_leaf:
  assumes "skip_ws s = c # cs" and "c \<noteq> 0x7B" and "c \<noteq> 0x5B"
  shows "parse_value (Suc k) s = parse_value (Suc m) s"
  using assms by simp

lemma parse_value_leaf_length:
  assumes sk: "skip_ws s = c # cs" and "c \<noteq> 0x7B" and "c \<noteq> 0x5B"
    and pv: "parse_value (Suc m) s = Some (v, r)"
  shows "length r < length s"
proof -
  have le: "length (c # cs) \<le> length s"
    using length_skip_ws [of s] sk by simp
  consider (string) "c = 0x22" | (lit) lit v' where "lit \<noteq> []" "expect lit v' (c # cs) = Some (v, r)"
    | (num) "parse_number (c # cs) = Some (v, r)"
    using assms str_nonempty by (auto split: if_splits)
  then show ?thesis
  proof cases
    case string
    with assms obtain t where "parse_chars [] cs = Some (t, r)"
      by (auto split: option.splits)
    from parse_chars_length [OF this] le show ?thesis by simp
  next
    case lit
    from expect_length [OF lit] le show ?thesis by simp
  next
    case num
    from parse_number_length [OF num] le show ?thesis by simp
  qed
qed


lemma parse_value_step:
  assumes IHe: "\<And>acc s v r. parse_elements m acc s = Some (v, r) \<Longrightarrow>
            length r < length s \<and> (\<forall>n. 2 * length s + 2 \<le> n \<longrightarrow> parse_elements n acc s = Some (v, r))"
    and IHm: "\<And>acc s v r. parse_members m acc s = Some (v, r) \<Longrightarrow>
            length r < length s \<and> (\<forall>n. 2 * length s + 2 \<le> n \<longrightarrow> parse_members n acc s = Some (v, r))"
    and pv: "parse_value (Suc m) s = Some (v, r)"
  shows "length r < length s \<and> (\<forall>n. 2 * length s + 1 \<le> n \<longrightarrow> parse_value n s = Some (v, r))"
proof -
  from pv obtain c cs where sk: "skip_ws s = c # cs"
    by (auto split: list.splits)
  have lcs: "length cs < length s"
    using skip_ws_Cons_length [OF sk] .
  have fuel: "\<exists>k. n = Suc k \<and> 2 * length s \<le> k" if "2 * length s + 1 \<le> n" for n
    using that by (cases n) auto
  consider (obj) "c = 0x7B" | (arr) "c \<noteq> 0x7B" "c = 0x5B" | (leaf) "c \<noteq> 0x7B" "c \<noteq> 0x5B"
    by blast
  then show ?thesis
  proof cases
    case obj
    from pv sk obj obtain d ds where sk2: "skip_ws cs = d # ds"
      by (auto split: list.splits)
    have lds: "length (d # ds) \<le> length cs"
      using length_skip_ws [of cs] sk2 by simp
    show ?thesis
    proof (cases "d = 0x7D")
      case True
      with pv sk obj sk2 have res: "v = JObj []" "r = ds"
        by auto
      have "parse_value n s = Some (v, r)" if "2 * length s + 1 \<le> n" for n
        using fuel [OF that] sk obj sk2 True res by auto
      with res lds lcs show ?thesis by auto
    next
      case False
      with pv sk obj sk2 have pm: "parse_members m [] (d # ds) = Some (v, r)"
        by simp
      note ih = IHm [OF pm]
      have "parse_value n s = Some (v, r)" if "2 * length s + 1 \<le> n" for n
      proof -
        from fuel [OF that] obtain k where k: "n = Suc k" "2 * length s \<le> k" by blast
        with lds lcs have "2 * length (d # ds) + 2 \<le> k" by simp
        with ih have "parse_members k [] (d # ds) = Some (v, r)" by blast
        with k sk obj sk2 False show ?thesis by simp
      qed
      with ih lds lcs show ?thesis by auto
    qed
  next
    case arr
    from pv sk arr obtain d ds where sk2: "skip_ws cs = d # ds"
      by (auto split: list.splits)
    have lds: "length (d # ds) \<le> length cs"
      using length_skip_ws [of cs] sk2 by simp
    show ?thesis
    proof (cases "d = 0x5D")
      case True
      with pv sk arr sk2 have res: "v = JArr []" "r = ds"
        by auto
      have "parse_value n s = Some (v, r)" if "2 * length s + 1 \<le> n" for n
        using fuel [OF that] sk arr sk2 True res by auto
      with res lds lcs show ?thesis by auto
    next
      case False
      with pv sk arr sk2 have pe: "parse_elements m [] (d # ds) = Some (v, r)"
        by simp
      note ih = IHe [OF pe]
      have "parse_value n s = Some (v, r)" if "2 * length s + 1 \<le> n" for n
      proof -
        from fuel [OF that] obtain k where k: "n = Suc k" "2 * length s \<le> k" by blast
        with lds lcs have "2 * length (d # ds) + 2 \<le> k" by simp
        with ih have "parse_elements k [] (d # ds) = Some (v, r)" by blast
        with k sk arr sk2 False show ?thesis by simp
      qed
      with ih lds lcs show ?thesis by auto
    qed
  next
    case leaf
    have "parse_value n s = Some (v, r)" if "2 * length s + 1 \<le> n" for n
    proof -
      from fuel [OF that] obtain k where k: "n = Suc k" by blast
      show ?thesis
        unfolding k using parse_value_leaf [OF sk leaf, of k m] pv by simp
    qed
    with parse_value_leaf_length [OF sk leaf pv] show ?thesis by blast
  qed
qed


lemma parse_elements_step:
  assumes IHv: "\<And>s v r. parse_value m s = Some (v, r) \<Longrightarrow>
            length r < length s \<and> (\<forall>n. 2 * length s + 1 \<le> n \<longrightarrow> parse_value n s = Some (v, r))"
    and IHe: "\<And>acc s v r. parse_elements m acc s = Some (v, r) \<Longrightarrow>
            length r < length s \<and> (\<forall>n. 2 * length s + 2 \<le> n \<longrightarrow> parse_elements n acc s = Some (v, r))"
    and pe: "parse_elements (Suc m) acc s = Some (v, r)"
  shows "length r < length s \<and> (\<forall>n. 2 * length s + 2 \<le> n \<longrightarrow> parse_elements n acc s = Some (v, r))"
proof -
  from pe obtain x r1 where pv: "parse_value m s = Some (x, r1)"
    by (auto split: option.splits)
  note ihv = IHv [OF pv]
  from pe pv obtain c cs where sk: "skip_ws r1 = c # cs"
    by (auto split: list.splits)
  have lcs: "length cs < length r1"
    using skip_ws_Cons_length [OF sk] .
  have fuel: "\<exists>k. n = Suc k \<and> 2 * length s + 1 \<le> k" if "2 * length s + 2 \<le> n" for n
    using that by (cases n) auto
  from pe pv sk consider (more) "c = 0x2C" | (close) "c \<noteq> 0x2C" "c = 0x5D"
    by (auto split: if_splits)
  then show ?thesis
  proof cases
    case more
    with pe pv sk have pe2: "parse_elements m (x # acc) cs = Some (v, r)"
      by simp
    note ih = IHe [OF pe2]
    have "parse_elements n acc s = Some (v, r)" if "2 * length s + 2 \<le> n" for n
    proof -
      from fuel [OF that] obtain k where k: "n = Suc k" "2 * length s + 1 \<le> k" by blast
      with ihv have a: "parse_value k s = Some (x, r1)" by blast
      from k ihv lcs have "2 * length cs + 2 \<le> k" by simp
      with ih have "parse_elements k (x # acc) cs = Some (v, r)" by blast
      with a k sk more show ?thesis by simp
    qed
    with ih ihv lcs show ?thesis by auto
  next
    case close
    with pe pv sk have res: "v = JArr (rev (x # acc))" "r = cs"
      by auto
    have "parse_elements n acc s = Some (v, r)" if "2 * length s + 2 \<le> n" for n
    proof -
      from fuel [OF that] obtain k where k: "n = Suc k" "2 * length s + 1 \<le> k" by blast
      with ihv have a: "parse_value k s = Some (x, r1)" by blast
      with k sk close res show ?thesis by simp
    qed
    with res ihv lcs show ?thesis by auto
  qed
qed

lemma parse_members_step_fuel:
  assumes IHv: "\<And>s v r. parse_value m s = Some (v, r) \<Longrightarrow>
            length r < length s \<and> (\<forall>n. 2 * length s + 1 \<le> n \<longrightarrow> parse_value n s = Some (v, r))"
    and IHm: "\<And>acc s v r. parse_members m acc s = Some (v, r) \<Longrightarrow>
            length r < length s \<and> (\<forall>n. 2 * length s + 2 \<le> n \<longrightarrow> parse_members n acc s = Some (v, r))"
    and pm: "parse_members (Suc m) acc s = Some (v, r)"
  shows "length r < length s \<and> (\<forall>n. 2 * length s + 2 \<le> n \<longrightarrow> parse_members n acc s = Some (v, r))"
proof -
  from pm obtain c cs where sk: "skip_ws s = c # cs"
    by (auto split: list.splits)
  with pm have c: "c = 0x22"
    by (auto split: if_splits)
  from pm sk c obtain key r1 where pc: "parse_chars [] cs = Some (key, r1)"
    by (auto split: option.splits)
  from pm sk c pc obtain d ds where sk1: "skip_ws r1 = d # ds"
    by (auto split: list.splits)
  with pm sk c pc have d: "d = 0x3A"
    by (auto split: if_splits)
  from pm sk c pc sk1 d obtain x r2 where pv: "parse_value m ds = Some (x, r2)"
    by (auto split: option.splits)
  note ihv = IHv [OF pv]
  from pm sk c pc sk1 d pv obtain e es where sk2: "skip_ws r2 = e # es"
    by (auto split: list.splits)
  have l: "length cs < length s" "length r1 < length cs" "length ds < length r1" "length es < length r2"
    using skip_ws_Cons_length [OF sk] parse_chars_length [OF pc] skip_ws_Cons_length [OF sk1]
      skip_ws_Cons_length [OF sk2] by simp_all
  have fuel: "\<exists>k. n = Suc k \<and> 2 * length s + 1 \<le> k" if "2 * length s + 2 \<le> n" for n
    using that by (cases n) auto
  from pm sk c pc sk1 d pv sk2 consider (more) "e = 0x2C" | (close) "e \<noteq> 0x2C" "e = 0x7D"
    by (auto split: if_splits)
  then show ?thesis
  proof cases
    case more
    with pm sk c pc sk1 d pv sk2 have pm2: "parse_members m ((key, x) # acc) es = Some (v, r)"
      by simp
    note ih = IHm [OF pm2]
    have "parse_members n acc s = Some (v, r)" if "2 * length s + 2 \<le> n" for n
    proof -
      from fuel [OF that] obtain k where k: "n = Suc k" "2 * length s + 1 \<le> k" by blast
      from k l have "2 * length ds + 1 \<le> k" by simp
      with ihv have a: "parse_value k ds = Some (x, r2)" by blast
      from k ihv l have "2 * length es + 2 \<le> k" by simp
      with ih have "parse_members k ((key, x) # acc) es = Some (v, r)" by blast
      with a k sk c pc sk1 d sk2 more show ?thesis by simp
    qed
    with ih ihv l show ?thesis by auto
  next
    case close
    with pm sk c pc sk1 d pv sk2 have res: "v = JObj (rev ((key, x) # acc))" "r = es"
      by auto
    have "parse_members n acc s = Some (v, r)" if "2 * length s + 2 \<le> n" for n
    proof -
      from fuel [OF that] obtain k where k: "n = Suc k" "2 * length s + 1 \<le> k" by blast
      from k l have "2 * length ds + 1 \<le> k" by simp
      with ihv have a: "parse_value k ds = Some (x, r2)" by blast
      with k sk c pc sk1 d sk2 close res show ?thesis by simp
    qed
    with res ihv l show ?thesis by auto
  qed
qed


lemma parse_fuel:
  "(\<forall>s v r. parse_value m s = Some (v, r) \<longrightarrow>
      length r < length s \<and> (\<forall>n. 2 * length s + 1 \<le> n \<longrightarrow> parse_value n s = Some (v, r))) \<and>
   (\<forall>acc s v r. parse_elements m acc s = Some (v, r) \<longrightarrow>
      length r < length s \<and> (\<forall>n. 2 * length s + 2 \<le> n \<longrightarrow> parse_elements n acc s = Some (v, r))) \<and>
   (\<forall>acc s v r. parse_members m acc s = Some (v, r) \<longrightarrow>
      length r < length s \<and> (\<forall>n. 2 * length s + 2 \<le> n \<longrightarrow> parse_members n acc s = Some (v, r)))"
proof (induction m)
  case 0
  show ?case by simp
next
  case (Suc m)
  have IHv: "length r < length s \<and> (\<forall>n. 2 * length s + 1 \<le> n \<longrightarrow> parse_value n s = Some (v, r))"
    if "parse_value m s = Some (v, r)" for s v r
    using Suc that by blast
  have IHe: "length r < length s \<and> (\<forall>n. 2 * length s + 2 \<le> n \<longrightarrow> parse_elements n acc s = Some (v, r))"
    if "parse_elements m acc s = Some (v, r)" for acc s v r
    using Suc that by blast
  have IHm: "length r < length s \<and> (\<forall>n. 2 * length s + 2 \<le> n \<longrightarrow> parse_members n acc s = Some (v, r))"
    if "parse_members m acc s = Some (v, r)" for acc s v r
    using Suc that by blast
  show ?case
  proof (intro conjI allI impI)
    fix s v r assume a: "parse_value (Suc m) s = Some (v, r)"
    from parse_value_step [OF IHe IHm a]
    show "length r < length s" and "\<And>n. 2 * length s + 1 \<le> n \<Longrightarrow> parse_value n s = Some (v, r)"
      by blast+
  next
    fix acc s v r assume a: "parse_elements (Suc m) acc s = Some (v, r)"
    from parse_elements_step [OF IHv IHe a]
    show "length r < length s" and "\<And>n. 2 * length s + 2 \<le> n \<Longrightarrow> parse_elements n acc s = Some (v, r)"
      by blast+
  next
    fix acc s v r assume a: "parse_members (Suc m) acc s = Some (v, r)"
    from parse_members_step_fuel [OF IHv IHm a]
    show "length r < length s" and "\<And>n. 2 * length s + 2 \<le> n \<Longrightarrow> parse_members n acc s = Some (v, r)"
      by blast+
  qed
qed

lemma parse_value_enough:
  assumes "parse_value n s = Some (v, r)"
  shows "parse_value (2 * length s + 2) s = Some (v, r)"
proof -
  from parse_fuel [of n] assms
  have "\<forall>k. 2 * length s + 1 \<le> k \<longrightarrow> parse_value k s = Some (v, r)"
    by blast
  moreover have "2 * length s + 1 \<le> 2 * length s + 2"
    by (rule add_left_mono) (rule one_le_numeral)
  ultimately show ?thesis
    by blast
qed

lemma JSON_parse_any_depth:
  "JSON_parse s = Some v \<longleftrightarrow> (\<exists>n r. parse_value n s = Some (v, r) \<and> skip_ws r = [])"
proof
  assume a: "JSON_parse s = Some v"
  show "\<exists>n r. parse_value n s = Some (v, r) \<and> skip_ws r = []"
  proof (cases "parse_value (2 * length s + 2) s")
    case None
    with a show ?thesis
      by (simp only: JSON_parse_def option.case) (simp del: parse_value.simps)
  next
    case (Some p)
    obtain w r where p: "p = (w, r)" by (cases p)
    from a Some p have "skip_ws r = [] \<and> w = v"
      by (simp only: JSON_parse_def option.case prod.case split: if_splits)
         (simp_all del: parse_value.simps)
    with Some p show ?thesis by blast
  qed
next
  assume "\<exists>n r. parse_value n s = Some (v, r) \<and> skip_ws r = []"
  then obtain n r where p: "parse_value n s = Some (v, r)" and r: "skip_ws r = []"
    by blast
  from parse_value_enough [OF p] r show "JSON_parse s = Some v"
    by (simp only: JSON_parse_def option.case prod.case) (simp del: parse_value.simps)
qed

section \<open>JSON.parse inverts JSON.stringify on strings\<close>

lemma hex_digits_all: "list_all (\<lambda>k. hex_val (hex_digit k) = Some k) [0..<16]"
  by code_simp

lemma hex_val_hex_digit: "n < 16 \<Longrightarrow> hex_val (hex_digit n) = Some n"
  using hex_digits_all by (simp add: list_all_iff)

lemma nat16_digits:
  fixes u :: nat
  shows "((u div 4096 * 16 + u div 256 mod 16) * 16 + u div 16 mod 16) * 16 + u mod 16 = u"
proof -
  have a: "u div 256 = u div 16 div 16" by (simp add: div_mult2_eq [symmetric])
  have b: "u div 4096 = u div 16 div 16 div 16" by (simp add: div_mult2_eq [symmetric])
  show ?thesis unfolding a b by (simp add: div_mult_mod_eq)
qed

lemma hex4_unicode_escape:
  "hex4 (hex_digit (unat c div 4096)) (hex_digit (unat c div 256 mod 16))
        (hex_digit (unat c div 16 mod 16)) (hex_digit (unat c mod 16)) = Some c"
proof -
  have "unat c < 65536" using unsigned_less [of c, where 'a = nat] by simp
  then have "unat c div 4096 < 16" by simp
  then have d1: "hex_val (hex_digit (unat c div 4096)) = Some (unat c div 4096)"
    by (rule hex_val_hex_digit)
  have d2: "hex_val (hex_digit (unat c div 256 mod 16)) = Some (unat c div 256 mod 16)"
    by (rule hex_val_hex_digit) simp
  have d3: "hex_val (hex_digit (unat c div 16 mod 16)) = Some (unat c div 16 mod 16)"
    by (rule hex_val_hex_digit) simp
  have d4: "hex_val (hex_digit (unat c mod 16)) = Some (unat c mod 16)"
    by (rule hex_val_hex_digit) simp
  have "(of_nat (unat c) :: 16 word) = c" by simp
  then have e: "(of_nat (((unat c div 4096 * 16 + unat c div 256 mod 16) * 16
                  + unat c div 16 mod 16) * 16 + unat c mod 16) :: 16 word) = c"
    by (simp only: nat16_digits)
  show ?thesis
    by (simp only: hex4_def d1 d2 d3 d4 prod.case option.case e)
qed

lemma parse_chars_unicode_escape:
  "parse_chars acc (unicode_escape c @ rest) = parse_chars (c # acc) rest"
  by (simp add: unicode_escape_def hex4_unicode_escape)


lemma lead_facts:
  assumes "is_lead_surrogate c"
  shows "c \<noteq> 0x22" "c \<noteq> 0x5C" "\<not> c < 0x20"
  using assms by (auto simp: is_lead_surrogate_def word_le_nat_alt word_less_nat_alt)

lemma trail_facts:
  assumes "is_trail_surrogate c"
  shows "c \<noteq> 0x22" "c \<noteq> 0x5C" "\<not> c < 0x20"
  using assms by (auto simp: is_trail_surrogate_def word_le_nat_alt word_less_nat_alt)

lemma parse_chars_plain:
  "c \<noteq> 0x22 \<Longrightarrow> c \<noteq> 0x5C \<Longrightarrow> \<not> c < 0x20 \<Longrightarrow>
   parse_chars acc (c # cs) = parse_chars (c # acc) cs"
  by simp

lemma parse_chars_escape:
  "parse_chars acc (0x5C # 0x62 # cs) = parse_chars (0x08 # acc) cs"
  "parse_chars acc (0x5C # 0x74 # cs) = parse_chars (0x09 # acc) cs"
  "parse_chars acc (0x5C # 0x6E # cs) = parse_chars (0x0A # acc) cs"
  "parse_chars acc (0x5C # 0x66 # cs) = parse_chars (0x0C # acc) cs"
  "parse_chars acc (0x5C # 0x72 # cs) = parse_chars (0x0D # acc) cs"
  "parse_chars acc (0x5C # 0x22 # cs) = parse_chars (0x22 # acc) cs"
  "parse_chars acc (0x5C # 0x5C # cs) = parse_chars (0x5C # acc) cs"
  by simp_all

lemma parse_chars_quote: "parse_chars acc (0x22 # cs) = Some (rev acc, cs)"
  by simp

lemma parse_chars_quote_chars:
  "parse_chars acc (quote_chars s @ 0x22 # rest) = Some (rev acc @ s, rest)"
proof (induction s arbitrary: acc rule: quote_chars.induct)
  case 1
  show ?case by simp
next
  case (2 c cs)
  note q = quote_chars.simps(2) [of c cs]
  show ?case
  proof (cases "c = 0x08 \<or> c = 0x09 \<or> c = 0x0A \<or> c = 0x0C \<or> c = 0x0D \<or> c = 0x22 \<or> c = 0x5C")
    case True
    then consider "c = 0x08" | "c = 0x09" | "c = 0x0A" | "c = 0x0C" | "c = 0x0D" | "c = 0x22" | "c = 0x5C"
      by blast
    then show ?thesis
    proof cases
      case 1
      then show ?thesis using "2.IH"(1) [of "0x08 # acc"]
        by (simp del: parse_chars.simps add: parse_chars_escape)
    next
      case 2
      then show ?thesis using "2.IH"(2) [of "0x09 # acc"]
        by (simp del: parse_chars.simps add: parse_chars_escape)
    next
      case 3
      then show ?thesis using "2.IH"(3) [of "0x0A # acc"]
        by (simp del: parse_chars.simps add: parse_chars_escape)
    next
      case 4
      then show ?thesis using "2.IH"(4) [of "0x0C # acc"]
        by (simp del: parse_chars.simps add: parse_chars_escape)
    next
      case 5
      then show ?thesis using "2.IH"(5) [of "0x0D # acc"]
        by (simp del: parse_chars.simps add: parse_chars_escape)
    next
      case 6
      then show ?thesis using "2.IH"(6) [of "0x22 # acc"]
        by (simp del: parse_chars.simps add: parse_chars_escape)
    next
      case 7
      then show ?thesis using "2.IH"(7) [of "0x5C # acc"]
        by (simp del: parse_chars.simps add: parse_chars_escape)
    qed
  next
    case plain: False
    then have ne: "c \<noteq> 0x08" "c \<noteq> 0x09" "c \<noteq> 0x0A" "c \<noteq> 0x0C" "c \<noteq> 0x0D" "c \<noteq> 0x22" "c \<noteq> 0x5C"
      by simp_all
    show ?thesis
    proof (cases "c < 0x20")
      case True
      then show ?thesis using ne "2.IH"(8) [of "c # acc"]
        by (simp del: parse_chars.simps add: parse_chars_unicode_escape)
    next
      case ge: False
      show ?thesis
      proof (cases "is_lead_surrogate c")
        case lead: True
        show ?thesis
        proof (cases cs)
          case Nil
          then show ?thesis using ne ge lead
            by (simp del: parse_chars.simps add: parse_chars_unicode_escape parse_chars_quote)
        next
          case (Cons d ds)
          show ?thesis
          proof (cases "is_trail_surrogate d")
            case True
            have "parse_chars acc (c # d # quote_chars ds @ 0x22 # rest)
                  = parse_chars (d # c # acc) (quote_chars ds @ 0x22 # rest)"
              using ne ge trail_facts [OF True]
              by (simp del: parse_chars.simps add: parse_chars_plain)
            then show ?thesis
              using ne ge lead Cons True "2.IH"(9) [of d ds "d # c # acc"]
              by (simp del: parse_chars.simps)
          next
            case False
            then show ?thesis
              using ne ge lead Cons "2.IH"(10) [of d ds "c # acc"]
              by (simp del: parse_chars.simps add: parse_chars_unicode_escape)
          qed
        qed
      next
        case nolead: False
        show ?thesis
        proof (cases "is_trail_surrogate c")
          case True
          then show ?thesis using ne ge nolead "2.IH"(11) [of "c # acc"]
            by (simp del: parse_chars.simps add: parse_chars_unicode_escape)
        next
          case False
          then show ?thesis using ne ge nolead "2.IH"(12) [of "c # acc"]
            by (simp del: parse_chars.simps add: parse_chars_plain)
        qed
      qed
    qed
  qed
qed


section \<open>JSON.parse inverts JSON.stringify on a Wallet\<close>

lemma parse_string_member:
  "parse_chars [] (tl (QuoteJSONString v) @ rest) = Some (v, rest)"
  using parse_chars_quote_chars [of "[]" v rest]
  by (simp add: QuoteJSONString_def)

lemma QuoteJSONString_Cons: "QuoteJSONString v = 0x22 # tl (QuoteJSONString v)"
  by (simp add: QuoteJSONString_def)

lemma parse_value_string:
  "parse_value (Suc n) (QuoteJSONString v @ rest) = Some (JStr v, rest)"
  using parse_chars_quote_chars [of "[]" v rest]
  by (simp add: QuoteJSONString_def del: parse_chars.simps)



lemma JSON_member_Cons:
  "JSON_member k v @ rest = 0x22 # (quote_chars (str k) @ 0x22 # 0x3A # QuoteJSONString v @ rest)"
  by (simp add: JSON_member_def QuoteJSONString_def)

lemma parse_members_step:
  "parse_members (Suc (Suc n)) acc (0x22 # (quote_chars k @ 0x22 # 0x3A # QuoteJSONString v @ r))
   = (case skip_ws r of
        [] \<Rightarrow> None
      | e # es \<Rightarrow>
          if e = 0x2C then parse_members (Suc n) ((k, JStr v) # acc) es
          else if e = 0x7D then Some (JObj (rev ((k, JStr v) # acc)), es)
          else None)"
  apply (subst parse_members.simps(2))
  apply (simp only: skip_ws.simps)
  apply (simp add: parse_chars_quote_chars parse_value_string
               del: parse_chars.simps parse_value.simps parse_members.simps)
  done


lemma parse_members_more:
  "parse_members (Suc (Suc n)) acc (JSON_member k v @ 0x2C # rest)
   = parse_members (Suc n) ((str k, JStr v) # acc) rest"
  by (simp only: JSON_member_Cons parse_members_step skip_ws.simps) simp

lemma parse_members_last:
  "parse_members (Suc (Suc n)) acc (JSON_member k v @ 0x7D # rest)
   = Some (JObj (rev ((str k, JStr v) # acc)), rest)"
  by (simp only: JSON_member_Cons parse_members_step skip_ws.simps) simp

lemma parse_value_object:
  "parse_value (Suc n) (0x7B # JSON_member k v @ r) = parse_members n [] (JSON_member k v @ r)"
  apply (subst parse_value.simps(2))
  apply (simp only: JSON_member_Cons skip_ws.simps)
  apply simp
  done


lemma parse_value_Wallet:
  "parse_value (Suc (Suc (Suc (Suc (Suc (Suc (Suc n))))))) (JSON_stringify w @ rest)
   = Some (Wallet_value w, rest)"
proof -
  have "JSON_stringify w @ rest =
     0x7B # JSON_member ''mnemonic'' (mnemonic w) @
     0x2C # JSON_member ''privateKey'' (privateKey w) @
     0x2C # JSON_member ''publicKey'' (publicKey w) @
     0x2C # JSON_member ''address'' (address w) @
     0x2C # JSON_member ''wif'' (wif w) @ 0x7D # rest"
    by (simp add: JSON_stringify_def)
  then show ?thesis
    by (simp only: parse_value_object parse_members_more parse_members_last Wallet_value_def
          rev.simps append_Nil append_Cons)
qed

lemma length_JSON_stringify: "\<exists>n. 2 * length (JSON_stringify w) + 2 = Suc (Suc (Suc (Suc (Suc (Suc (Suc n))))))"
  by (simp add: JSON_stringify_def)

lemma JSON_parse_stringify: "JSON_parse (JSON_stringify w) = Some (Wallet_value w)"
proof -
  obtain n where n: "2 * length (JSON_stringify w) + 2 = Suc (Suc (Suc (Suc (Suc (Suc (Suc n))))))"
    using length_JSON_stringify [of w] by blast
  have "parse_value (2 * length (JSON_stringify w) + 2) (JSON_stringify w @ []) = Some (Wallet_value w, [])"
    unfolding n by (rule parse_value_Wallet)
  then show ?thesis
    by (simp add: JSON_parse_def)
qed

lemma JSON_stringify_truthy: "JSON_stringify w \<noteq> []"
  by (simp add: JSON_stringify_def)

section \<open>The service\<close>

lemma importWalletFromMnemonic_pipeline:
  "importWalletFromMnemonic P m s =
     (if \<not> bip39_validateMnemonic P m then (Inl (Error ''Invalid mnemonic phrase''), s)
      else (case derive_wallet P m of Inl e \<Rightarrow> (Inl e, s) | Inr w \<Rightarrow> persist w s))"
  by (simp add: importWalletFromMnemonic_def derive_wallet_def and_then_def persist_def
        derivation_path_def Let_def split: sum.splits)

lemma generateWallet_pipeline:
  "generateWallet P rng s =
     (case bip39_generateMnemonic P rng of
        Inl e \<Rightarrow> (Inl e, s)
      | Inr m \<Rightarrow> (case derive_wallet P m of Inl e \<Rightarrow> (Inl e, s) | Inr w \<Rightarrow> persist w s))"
  by (simp add: generateWallet_def derive_wallet_def and_then_def persist_def
        derivation_path_def Let_def split: sum.splits)

lemma saveWallet_cases:
  "saveWallet w s =
     (case next_fault s of
        Some e \<Rightarrow> (Inl e, issue (SetItem WALLET_STORAGE_KEY (JSON_stringify w)) s)
      | None \<Rightarrow> (Inr (), (issue (SetItem WALLET_STORAGE_KEY (JSON_stringify w)) s)
                  \<lparr>items := (items s)(WALLET_STORAGE_KEY \<mapsto> JSON_stringify w)\<rparr>))"
  by (simp add: saveWallet_def AsyncStorage_setItem_def split: option.splits)

lemma derive_wallet_mnemonic: "derive_wallet P m = Inr w \<Longrightarrow> mnemonic w = m"
  by (auto simp: derive_wallet_def and_then_def split: sum.splits)


lemma loadWallet_cases:
  "fst (loadWallet s) =
     (case next_fault s of
        Some e \<Rightarrow> Inr JNull
      | None \<Rightarrow>
          (case items s WALLET_STORAGE_KEY of
             None \<Rightarrow> Inr JNull
           | Some t \<Rightarrow>
               if t = [] then Inr JNull
               else (case JSON_parse t of None \<Rightarrow> Inr JNull | Some v \<Rightarrow> Inr v)))"
  by (simp add: loadWallet_def loadWallet_try_def AsyncStorage_getItem_def
        split: option.splits)

lemma as_Wallet_value: "as_Wallet (Wallet_value w) = Some w"
  by (simp add: as_Wallet_def string_prop_def get_prop_def Wallet_value_def str_def)


lemma JSON_parse_truncated_record: "JSON_parse truncated_record = None"
  unfolding truncated_record_def by code_simp



text \<open>
  Claim C9. When \<open>saveWallet w\<close> returns and the store then serves the read,
  \<open>loadWallet\<close> returns the object of \<open>w\<close>, and reading that object back as a \<open>Wallet\<close>
  gives \<open>w\<close>, field for field.
\<close>

theorem saveWallet_loadWallet_roundtrip:
  assumes "fst (saveWallet w s) = Inr ()"
    and "next_fault (snd (saveWallet w s)) = None"
  shows "fst (loadWallet (snd (saveWallet w s))) = Inr (Wallet_value w) \<and>
         as_Wallet (Wallet_value w) = Some w"
proof -
  from assms(1) have ok: "next_fault s = None"
    by (simp add: saveWallet_cases split: option.splits)
  then have "items (snd (saveWallet w s)) WALLET_STORAGE_KEY = Some (JSON_stringify w)"
    by (simp add: saveWallet_cases)
  with assms(2) have "fst (loadWallet (snd (saveWallet w s))) = Inr (Wallet_value w)"
    by (simp add: loadWallet_cases JSON_stringify_truthy JSON_parse_stringify)
  then show ?thesis
    by (simp add: as_Wallet_value)
qed

theorem saveWallet_loadWallet_roundtrip_witness:
  "fst (saveWallet wallet0 empty_storage) = Inr () \<and>
   next_fault (snd (saveWallet wallet0 empty_storage)) = None \<and>
   fst (loadWallet (snd (saveWallet wallet0 empty_storage))) = Inr (Wallet_value wallet0) \<and>
   as_Wallet (Wallet_value wallet0) = Some wallet0"
proof -
  have a: "fst (saveWallet wallet0 empty_storage) = Inr ()"
    by (simp add: saveWallet_cases next_fault_def empty_storage_def)
  have b: "next_fault (snd (saveWallet wallet0 empty_storage)) = None"
    by (simp add: saveWallet_cases next_fault_def empty_storage_def issue_def)
  show ?thesis
    using a b saveWallet_loadWallet_roundtrip [OF a b] by simp
qed

lemma deleteWallet_cases:
  "deleteWallet s =
     (case next_fault s of
        Some e \<Rightarrow> (Inl e, issue (RemoveItem WALLET_STORAGE_KEY) s)
      | None \<Rightarrow> (Inr (), (issue (RemoveItem WALLET_STORAGE_KEY) s)
                  \<lparr>items := (items s)(WALLET_STORAGE_KEY := None)\<rparr>))"
  by (simp add: deleteWallet_def AsyncStorage_removeItem_def split: option.splits)

text \<open>
  Claim C8. After a \<open>deleteWallet\<close> that returned, whatever the store held before,
  \<open>loadWallet\<close> returns \<open>null\<close>. On a store that accepts the call and does not hold the
  key, \<open>deleteWallet\<close> returns normally and the content is unchanged.
\<close>

theorem deleteWallet_then_loadWallet:
  "(fst (deleteWallet s) = Inr () \<longrightarrow> fst (loadWallet (snd (deleteWallet s))) = Inr JNull) \<and>
   (items s WALLET_STORAGE_KEY = None \<and> next_fault s = None \<longrightarrow>
      fst (deleteWallet s) = Inr () \<and> items (snd (deleteWallet s)) = items s)"
proof (intro conjI impI)
  assume "fst (deleteWallet s) = Inr ()"
  then have "next_fault s = None"
    by (simp add: deleteWallet_cases split: option.splits)
  then have "items (snd (deleteWallet s)) WALLET_STORAGE_KEY = None"
    by (simp add: deleteWallet_cases)
  then show "fst (loadWallet (snd (deleteWallet s))) = Inr JNull"
    by (simp add: loadWallet_cases split: option.splits)
next
  assume a: "items s WALLET_STORAGE_KEY = None \<and> next_fault s = None"
  then show "fst (deleteWallet s) = Inr ()"
    by (simp add: deleteWallet_cases)
  from a show "items (snd (deleteWallet s)) = items s"
    by (auto simp: deleteWallet_cases issue_def)
qed

theorem deleteWallet_then_loadWallet_witness:
  "fst (deleteWallet (snd (saveWallet wallet0 empty_storage))) = Inr () \<and>
   fst (loadWallet (snd (deleteWallet (snd (saveWallet wallet0 empty_storage))))) = Inr JNull \<and>
   items empty_storage WALLET_STORAGE_KEY = None \<and> next_fault empty_storage = None \<and>
   fst (deleteWallet empty_storage) = Inr () \<and>
   items (snd (deleteWallet empty_storage)) = items empty_storage"
proof -
  have a: "fst (deleteWallet (snd (saveWallet wallet0 empty_storage))) = Inr ()"
    by (simp add: deleteWallet_cases saveWallet_cases next_fault_def empty_storage_def issue_def)
  have b: "items empty_storage WALLET_STORAGE_KEY = None \<and> next_fault empty_storage = None"
    by (simp add: next_fault_def empty_storage_def)
  show ?thesis
    using a b deleteWallet_then_loadWallet [of "snd (saveWallet wallet0 empty_storage)"]
      deleteWallet_then_loadWallet [of empty_storage]
    by blast
qed

lemma persist_cases:
  "persist w s =
     (case next_fault s of
        Some e \<Rightarrow> (Inl e, issue (SetItem WALLET_STORAGE_KEY (JSON_stringify w)) s)
      | None \<Rightarrow> (Inr w, (issue (SetItem WALLET_STORAGE_KEY (JSON_stringify w)) s)
                  \<lparr>items := (items s)(WALLET_STORAGE_KEY \<mapsto> JSON_stringify w)\<rparr>))"
  by (simp add: persist_def saveWallet_cases split: option.splits)

text \<open>
  Claim C6. When the store rejects the write with \<open>e\<close>, \<open>saveWallet\<close> raises \<open>e\<close>, and
  neither \<open>generateWallet\<close> nor \<open>importWalletFromMnemonic\<close> returns a wallet: each ends
  in an error, which is \<open>e\<close> itself once the derivation has produced a wallet to save.
\<close>

theorem write_failure_propagates:
  assumes "next_fault s = Some e"
  shows "fst (saveWallet w s) = Inl e \<and>
         isl (fst (generateWallet P rng s)) \<and>
         isl (fst (importWalletFromMnemonic P m s)) \<and>
         (\<forall>m' w'. bip39_generateMnemonic P rng = Inr m' \<and> derive_wallet P m' = Inr w'
            \<longrightarrow> fst (generateWallet P rng s) = Inl e) \<and>
         (\<forall>w'. bip39_validateMnemonic P m \<and> derive_wallet P m = Inr w'
            \<longrightarrow> fst (importWalletFromMnemonic P m s) = Inl e)"
  using assms
  by (auto simp: saveWallet_cases generateWallet_pipeline importWalletFromMnemonic_pipeline
        persist_cases split: sum.splits)

text \<open>
  Claim C5. \<open>generateWallet\<close> and \<open>importWalletFromMnemonic\<close> are atomic with respect to
  the store (\<open>atomic_write\<close>): a returned wallet is the derived one and the slot holds
  its text, written by one call; when the operation raises, the content of the store is
  what it was, and the store saw no call at all or the single write of the text of the
  complete derived wallet.
\<close>

theorem wallet_creation_atomic:
  "atomic_write (and_then (bip39_generateMnemonic P rng) (derive_wallet P)) s (generateWallet P rng s) \<and>
   atomic_write (derive_wallet P m) s (importWalletFromMnemonic P m s)"
  by (auto simp: atomic_write_def and_then_def generateWallet_pipeline
        importWalletFromMnemonic_pipeline persist_cases issue_def
        split: sum.splits option.splits)


text \<open>
  Claim C10. For a wallet \<open>w\<close> returned by \<open>generateWallet\<close>, every wallet that
  \<open>importWalletFromMnemonic (mnemonic w)\<close> returns is \<open>w\<close>: the same \<open>privateKey\<close>,
  \<open>publicKey\<close>, \<open>address\<close> and \<open>wif\<close>. The import does return it when the package
  validates the phrase (as it does for the phrases it generates) and the store accepts
  the write.
\<close>

theorem generate_import_same_pipeline:
  assumes "fst (generateWallet P rng s) = Inr w"
  shows "(\<forall>s2 w2. fst (importWalletFromMnemonic P (mnemonic w) s2) = Inr w2 \<longrightarrow>
            w2 = w \<and> privateKey w2 = privateKey w \<and> publicKey w2 = publicKey w \<and>
            address w2 = address w \<and> wif w2 = wif w) \<and>
         (\<forall>s2. bip39_validateMnemonic P (mnemonic w) \<and> next_fault s2 = None \<longrightarrow>
            fst (importWalletFromMnemonic P (mnemonic w) s2) = Inr w)"
proof -
  from assms obtain m where m: "bip39_generateMnemonic P rng = Inr m" "derive_wallet P m = Inr w"
    by (auto simp: generateWallet_pipeline persist_cases split: sum.splits option.splits)
  then have d: "derive_wallet P (mnemonic w) = Inr w"
    by (simp add: derive_wallet_mnemonic)
  have "w2 = w" if "fst (importWalletFromMnemonic P (mnemonic w) s2) = Inr w2" for s2 w2
    using that d
    by (auto simp: importWalletFromMnemonic_pipeline persist_cases
          split: if_splits option.splits)
  moreover have "fst (importWalletFromMnemonic P (mnemonic w) s2) = Inr w"
    if "bip39_validateMnemonic P (mnemonic w) \<and> next_fault s2 = None" for s2
    using that d by (simp add: importWalletFromMnemonic_pipeline persist_cases)
  ultimately show ?thesis by blast
qed


section \<open>The service on concrete inputs\<close>

lemma word_count_phrase12: "word_count phrase12 = 12"
  by code_simp



lemma derive_wallet_phrase12: "derive_wallet test_packages phrase12 = Inr wallet12"
  by code_simp


lemma validate_test_packages:
  "bip39_validateMnemonic test_packages m \<longleftrightarrow> word_count m \<in> {12, 15, 18, 21, 24}"
  by (simp add: test_packages_def)

lemma generate_test_packages: "bip39_generateMnemonic test_packages (m # ms) = Inr m"
  by (simp add: test_packages_def)

lemma next_fault_storages:
  "next_fault empty_storage = None" "next_fault used_storage = None"
  "next_fault failing_storage = Some (Rejected 3)"
  by (simp_all add: next_fault_def empty_storage_def used_storage_def failing_storage_def)


theorem generate_import_same_pipeline_witness:
  "fst (generateWallet test_packages [phrase12] empty_storage) = Inr wallet12 \<and>
   bip39_validateMnemonic test_packages (mnemonic wallet12) \<and>
   next_fault used_storage = None \<and>
   fst (importWalletFromMnemonic test_packages (mnemonic wallet12) used_storage) = Inr wallet12 \<and>
   privateKey wallet12 = str ''6e61'' \<and> wif wallet12 = str ''c6e61''"
proof -
  have a: "fst (generateWallet test_packages [phrase12] empty_storage) = Inr wallet12"
    by (simp add: generateWallet_pipeline generate_test_packages
          derive_wallet_phrase12 persist_cases next_fault_storages)
  have b: "bip39_validateMnemonic test_packages (mnemonic wallet12)"
    by (simp add: validate_test_packages wallet12_def word_count_phrase12)
  have c: "fst (importWalletFromMnemonic test_packages (mnemonic wallet12) used_storage) = Inr wallet12"
    using generate_import_same_pipeline [OF a] b next_fault_storages(2) by blast
  show ?thesis
    using a b c next_fault_storages(2) by (simp add: wallet12_def)
qed

theorem write_failure_propagates_witness:
  "next_fault failing_storage = Some (Rejected 3) \<and>
   fst (saveWallet wallet0 failing_storage) = Inl (Rejected 3) \<and>
   fst (generateWallet test_packages [phrase12] failing_storage) = Inl (Rejected 3) \<and>
   fst (importWalletFromMnemonic test_packages phrase12 failing_storage) = Inl (Rejected 3)"
proof -
  have v: "bip39_validateMnemonic test_packages phrase12"
    by (simp add: validate_test_packages word_count_phrase12)
  show ?thesis
    using write_failure_propagates [OF next_fault_storages(3), of wallet0 test_packages "[phrase12]" phrase12]
      v derive_wallet_phrase12 generate_test_packages [of phrase12 "[]"] next_fault_storages(3)
    by blast
qed

theorem wallet_creation_atomic_witness:
  "atomic_write (derive_wallet test_packages phrase12) failing_storage
     (importWalletFromMnemonic test_packages phrase12 failing_storage) \<and>
   fst (importWalletFromMnemonic test_packages phrase12 failing_storage) = Inl (Rejected 3) \<and>
   items (snd (importWalletFromMnemonic test_packages phrase12 failing_storage)) = items failing_storage \<and>
   calls (snd (importWalletFromMnemonic test_packages phrase12 failing_storage))
     = [SetItem WALLET_STORAGE_KEY (JSON_stringify wallet12)]"
proof -
  have v: "bip39_validateMnemonic test_packages phrase12"
    by (simp add: validate_test_packages word_count_phrase12)
  have r: "importWalletFromMnemonic test_packages phrase12 failing_storage
           = (Inl (Rejected 3), issue (SetItem WALLET_STORAGE_KEY (JSON_stringify wallet12)) failing_storage)"
    by (simp add: importWalletFromMnemonic_pipeline v derive_wallet_phrase12 persist_cases
          next_fault_storages)
  have c: "calls (issue (SetItem WALLET_STORAGE_KEY (JSON_stringify wallet12)) failing_storage)
           = [SetItem WALLET_STORAGE_KEY (JSON_stringify wallet12)]"
    by (simp add: issue_def failing_storage_def)
  have i: "items (issue (SetItem WALLET_STORAGE_KEY (JSON_stringify wallet12)) failing_storage)
           = items failing_storage"
    by (simp add: issue_def)
  from wallet_creation_atomic [of test_packages "[phrase12]" failing_storage phrase12]
  have "atomic_write (derive_wallet test_packages phrase12) failing_storage
     (importWalletFromMnemonic test_packages phrase12 failing_storage)"
    by blast
  with r c i show ?thesis by simp
qed



section \<open>The remote lookups\<close>

lemma getWalletBalance_cases:
  "getWalletBalance fetch conv a =
     (case fetch (balance_url a) of
        Inl e \<Rightarrow> Inr (Fin 0)
      | Inr r \<Rightarrow>
          if \<not> ok r then Inr (Fin 0)
          else (case response_json r of
                  Inl e \<Rightarrow> Inr (Fin 0)
                | Inr data \<Rightarrow>
                    (case get_prop data (str ''balance'') of
                       Inl e \<Rightarrow> Inr (Fin 0)
                     | Inr b \<Rightarrow> Inr (number_div (ToNumber conv b) 100000000))))"
  by (simp add: getWalletBalance_def getWalletBalance_try_def balance_url_def split: sum.splits)

lemma getWalletBalance_fail_soft:
  "(\<exists>v. getWalletBalance fetch conv a = Inr v) \<and>
   (\<forall>e. fetch (balance_url a) = Inl e \<longrightarrow> getWalletBalance fetch conv a = Inr (Fin 0)) \<and>
   (\<forall>r. fetch (balance_url a) = Inr r \<and> \<not> ok r \<longrightarrow> getWalletBalance fetch conv a = Inr (Fin 0)) \<and>
   (\<forall>r e. fetch (balance_url a) = Inr r \<and> response_json r = Inl e
      \<longrightarrow> getWalletBalance fetch conv a = Inr (Fin 0)) \<and>
   (\<forall>r. fetch (balance_url a) = Inr r \<and> response_json r = Inr JNull
      \<longrightarrow> getWalletBalance fetch conv a = Inr (Fin 0))"
  by (auto simp: getWalletBalance_cases get_prop_def split: sum.splits)

lemma getWalletBalance_number:
  "fetch (balance_url a) = Inr r \<Longrightarrow> ok r \<Longrightarrow> response_json r = Inr (JObj ms) \<Longrightarrow>
   map_of (rev ms) (str ''balance'') = Some (JNum n) \<Longrightarrow>
   getWalletBalance fetch conv a = Inr (Fin (n / 100000000))"
  by (simp add: getWalletBalance_cases get_prop_def ToNumber_def number_div_def)

lemma JSON_parse_body_without_balance: "JSON_parse body_without_balance = Some (JObj [])"
  by code_simp

text \<open>
  Claim C3. The status is 200 and the body is the JSON text \<open>{}\<close>, a payload without a
  \<open>balance\<close>: \<open>data.balance\<close> is \<open>undefined\<close>, the division gives \<open>NaN\<close>, and
  \<open>getWalletBalance\<close> returns \<open>NaN\<close>, not \<open>0\<close>. (It never raises, and it returns \<open>0\<close> on a
  transport error, a status outside 200-299, a body that is not JSON and a \<open>null\<close>
  payload: \<open>getWalletBalance_fail_soft\<close>.)
\<close>

theorem getWalletBalance_missing_balance:
  "getWalletBalance (serve \<lparr>ok = True, body = Inr body_without_balance\<rparr>) conv a = Inr NaN"
  by (simp add: getWalletBalance_cases serve_def response_json_def
        JSON_parse_body_without_balance get_prop_def ToNumber_def number_div_def)

lemma getTransactionHistory_cases:
  "getTransactionHistory fetch a =
     (case fetch (history_url a) of
        Inl e \<Rightarrow> Inr (JArr [])
      | Inr r \<Rightarrow>
          if \<not> ok r then Inr (JArr [])
          else (case response_json r of
                  Inl e \<Rightarrow> Inr (JArr [])
                | Inr data \<Rightarrow>
                    (case get_prop data (str ''txs'') of
                       Inl e \<Rightarrow> Inr (JArr [])
                     | Inr None \<Rightarrow> Inr (JArr [])
                     | Inr (Some txs) \<Rightarrow> Inr (if truthy txs then txs else JArr []))))"
  by (simp add: getTransactionHistory_def getTransactionHistory_try_def history_url_def
        split: sum.splits option.splits)

text \<open>
  Claim C7, as amended. \<open>getTransactionHistory\<close> never raises. It returns the empty
  sequence on a transport error, a status outside 200-299, a body that is not JSON, a
  \<open>null\<close> payload and a payload without \<open>txs\<close>. When the payload carries an array
  \<open>txs\<close>, it returns that array as received: the cap of 10 and the order are asked of
  the remote source by \<open>limit=10\<close> in the request (\<open>history_url\<close>), and the service
  neither truncates nor reorders the answer.
\<close>

theorem getTransactionHistory_fail_soft:
  "(\<exists>v. getTransactionHistory fetch a = Inr v) \<and>
   (\<forall>e. fetch (history_url a) = Inl e \<longrightarrow> getTransactionHistory fetch a = Inr (JArr [])) \<and>
   (\<forall>r. fetch (history_url a) = Inr r \<and> \<not> ok r \<longrightarrow> getTransactionHistory fetch a = Inr (JArr [])) \<and>
   (\<forall>r e. fetch (history_url a) = Inr r \<and> response_json r = Inl e
      \<longrightarrow> getTransactionHistory fetch a = Inr (JArr [])) \<and>
   (\<forall>r. fetch (history_url a) = Inr r \<and> response_json r = Inr JNull
      \<longrightarrow> getTransactionHistory fetch a = Inr (JArr [])) \<and>
   (\<forall>r data. fetch (history_url a) = Inr r \<and> response_json r = Inr data \<and>
       get_prop data (str ''txs'') = Inr None
      \<longrightarrow> getTransactionHistory fetch a = Inr (JArr [])) \<and>
   (\<forall>r data xs. fetch (history_url a) = Inr r \<and> ok r \<and> response_json r = Inr data \<and>
       get_prop data (str ''txs'') = Inr (Some (JArr xs))
      \<longrightarrow> getTransactionHistory fetch a = Inr (JArr xs))"
proof (intro conjI allI impI)
  show "\<exists>v. getTransactionHistory fetch a = Inr v"
    by (simp add: getTransactionHistory_cases split: sum.splits option.splits)
next
  fix e
  assume "fetch (history_url a) = Inl e"
  then show "getTransactionHistory fetch a = Inr (JArr [])"
    by (simp add: getTransactionHistory_cases)
next
  fix r
  assume "fetch (history_url a) = Inr r \<and> \<not> ok r"
  then show "getTransactionHistory fetch a = Inr (JArr [])"
    by (simp add: getTransactionHistory_cases)
next
  fix r e
  assume "fetch (history_url a) = Inr r \<and> response_json r = Inl e"
  then show "getTransactionHistory fetch a = Inr (JArr [])"
    by (simp add: getTransactionHistory_cases)
next
  fix r
  assume "fetch (history_url a) = Inr r \<and> response_json r = Inr JNull"
  then show "getTransactionHistory fetch a = Inr (JArr [])"
    by (simp add: getTransactionHistory_cases get_prop_def)
next
  fix r data
  assume "fetch (history_url a) = Inr r \<and> response_json r = Inr data \<and>
       get_prop data (str ''txs'') = Inr None"
  then show "getTransactionHistory fetch a = Inr (JArr [])"
    by (simp add: getTransactionHistory_cases)
next
  fix r data xs
  assume "fetch (history_url a) = Inr r \<and> ok r \<and> response_json r = Inr data \<and>
       get_prop data (str ''txs'') = Inr (Some (JArr xs))"
  then show "getTransactionHistory fetch a = Inr (JArr xs)"
    by (simp add: getTransactionHistory_cases truthy_def)
qed

lemma JSON_parse_body_with_11_txs:
  "JSON_parse body_with_11_txs = Some (JObj [(str ''txs'', JArr eleven_txs)])"
  by code_simp

lemma JSON_parse_null: "JSON_parse (str ''null'') = Some JNull"
  by code_simp

lemma txs_of_eleven:
  "get_prop (JObj [(str ''txs'', JArr eleven_txs)]) (str ''txs'') = Inr (Some (JArr eleven_txs))"
  by (simp add: get_prop_def)

lemma length_eleven_txs: "length eleven_txs = 11"
  by (simp add: eleven_txs_def)

theorem getTransactionHistory_fail_soft_witness:
  "refuse (Rejected 1) (history_url (address wallet0)) = Inl (Rejected 1) \<and>
   getTransactionHistory (refuse (Rejected 1)) (address wallet0) = Inr (JArr []) \<and>
   \<not> ok \<lparr>ok = False, body = Inr body_with_11_txs\<rparr> \<and>
   getTransactionHistory (serve \<lparr>ok = False, body = Inr body_with_11_txs\<rparr>) (address wallet0)
     = Inr (JArr []) \<and>
   response_json \<lparr>ok = True, body = Inr truncated_record\<rparr> = Inl SyntaxError \<and>
   getTransactionHistory (serve \<lparr>ok = True, body = Inr truncated_record\<rparr>) (address wallet0)
     = Inr (JArr []) \<and>
   response_json \<lparr>ok = True, body = Inr (str ''null'')\<rparr> = Inr JNull \<and>
   getTransactionHistory (serve \<lparr>ok = True, body = Inr (str ''null'')\<rparr>) (address wallet0)
     = Inr (JArr []) \<and>
   response_json \<lparr>ok = True, body = Inr body_without_balance\<rparr> = Inr (JObj []) \<and>
   get_prop (JObj []) (str ''txs'') = Inr None \<and>
   getTransactionHistory (serve \<lparr>ok = True, body = Inr body_without_balance\<rparr>) (address wallet0)
     = Inr (JArr []) \<and>
   ok \<lparr>ok = True, body = Inr body_with_11_txs\<rparr> \<and>
   response_json \<lparr>ok = True, body = Inr body_with_11_txs\<rparr>
     = Inr (JObj [(str ''txs'', JArr eleven_txs)]) \<and>
   get_prop (JObj [(str ''txs'', JArr eleven_txs)]) (str ''txs'') = Inr (Some (JArr eleven_txs)) \<and>
   getTransactionHistory (serve \<lparr>ok = True, body = Inr body_with_11_txs\<rparr>) (address wallet0)
     = Inr (JArr eleven_txs)"
proof -
  let ?a = "address wallet0"
  have f1: "refuse (Rejected 1) (history_url ?a) = Inl (Rejected 1)"
    by (simp add: refuse_def)
  have f2: "serve r (history_url ?a) = Inr r" for r
    by (simp add: serve_def)
  have j3: "response_json \<lparr>ok = True, body = Inr truncated_record\<rparr> = Inl SyntaxError"
    by (simp add: response_json_def JSON_parse_truncated_record)
  have j4: "response_json \<lparr>ok = True, body = Inr (str ''null'')\<rparr> = Inr JNull"
    by (simp add: response_json_def JSON_parse_null)
  have j5: "response_json \<lparr>ok = True, body = Inr body_without_balance\<rparr> = Inr (JObj [])"
    by (simp add: response_json_def JSON_parse_body_without_balance)
  have p5: "get_prop (JObj []) (str ''txs'') = Inr None"
    by (simp add: get_prop_def)
  have j6: "response_json \<lparr>ok = True, body = Inr body_with_11_txs\<rparr>
              = Inr (JObj [(str ''txs'', JArr eleven_txs)])"
    by (simp add: response_json_def JSON_parse_body_with_11_txs)
  have o2: "\<not> ok \<lparr>ok = False, body = Inr body_with_11_txs\<rparr>" by simp
  have o6: "ok \<lparr>ok = True, body = Inr body_with_11_txs\<rparr>" by simp
  note t = getTransactionHistory_fail_soft
  have r1: "getTransactionHistory (refuse (Rejected 1)) ?a = Inr (JArr [])"
    using t [of "refuse (Rejected 1)" ?a] f1 by blast
  have r2: "getTransactionHistory (serve \<lparr>ok = False, body = Inr body_with_11_txs\<rparr>) ?a = Inr (JArr [])"
    using t [of "serve \<lparr>ok = False, body = Inr body_with_11_txs\<rparr>" ?a] f2 o2 by blast
  have r3: "getTransactionHistory (serve \<lparr>ok = True, body = Inr truncated_record\<rparr>) ?a = Inr (JArr [])"
    using t [of "serve \<lparr>ok = True, body = Inr truncated_record\<rparr>" ?a] f2 j3 by blast
  have r4: "getTransactionHistory (serve \<lparr>ok = True, body = Inr (str ''null'')\<rparr>) ?a = Inr (JArr [])"
    using t [of "serve \<lparr>ok = True, body = Inr (str ''null'')\<rparr>" ?a] f2 j4 by blast
  have r5: "getTransactionHistory (serve \<lparr>ok = True, body = Inr body_without_balance\<rparr>) ?a = Inr (JArr [])"
    using t [of "serve \<lparr>ok = True, body = Inr body_without_balance\<rparr>" ?a] f2 j5 p5 by blast
  have r6: "getTransactionHistory (serve \<lparr>ok = True, body = Inr body_with_11_txs\<rparr>) ?a = Inr (JArr eleven_txs)"
    using t [of "serve \<lparr>ok = True, body = Inr body_with_11_txs\<rparr>" ?a] f2 j6 o6 txs_of_eleven by blast
  show ?thesis
    using f1 o2 j3 j4 j5 p5 o6 j6 txs_of_eleven r1 r2 r3 r4 r5 r6 by blast
qed

text \<open>
  Claim C7 as stated fails: for a response that carries eleven records, the result has
  eleven records.
\<close>

theorem getTransactionHistory_not_capped:
  "getTransactionHistory (serve \<lparr>ok = True, body = Inr body_with_11_txs\<rparr>) (address wallet0)
     = Inr (JArr eleven_txs) \<and>
   length eleven_txs = 11"
  by (simp add: getTransactionHistory_cases serve_def response_json_def
        JSON_parse_body_with_11_txs get_prop_def truthy_def length_eleven_txs)

end
